theory Spec2Isabelle
  imports Complex_Main
begin

section \<open>SQUID array tuning (Procedures/array\_tune.py)\<close>

text \<open>
  Python floats are modelled as exact rationals. The SQUID-array electronics and the DAQ
  are not part of the sources: the electronics is a plain attribute store with a
  \<open>lock\<close> mode and a \<open>reset\<close> operation, and the DAQ is a parameter of the model, a
  function giving the sample read on the \<open>saa\<close> input from the current settings of the
  electronics, the number of the measurement and the index of the sample.
\<close>

record squidarray =
  A_flux :: rat
  S_flux :: rat
  S_flux_lim :: rat
  S_bias :: rat
  testInput :: string
  testSignal :: string
  sensitivity :: string
  locked :: string
  resets :: nat

text \<open>The two attribute names that the procedure passes to \<open>adjust\<close>.\<close>

datatype attr = Attr_A_flux | Attr_S_flux

fun getattr :: "squidarray \<Rightarrow> attr \<Rightarrow> rat" where
  "getattr sa Attr_A_flux = A_flux sa"
| "getattr sa Attr_S_flux = S_flux sa"

fun setattr :: "squidarray \<Rightarrow> attr \<Rightarrow> rat \<Rightarrow> squidarray" where
  "setattr sa Attr_A_flux v = sa\<lparr>A_flux := v\<rparr>"
| "setattr sa Attr_S_flux v = sa\<lparr>S_flux := v\<rparr>"

definition lock :: "string \<Rightarrow> squidarray \<Rightarrow> squidarray" where
  "lock mode sa = sa\<lparr>locked := mode\<rparr>"

definition reset :: "squidarray \<Rightarrow> squidarray" where
  "reset sa = sa\<lparr>resets := Suc (resets sa)\<rparr>"

text \<open>
  History of a run: every error computed from a measurement and every call of \<open>adjust\<close>,
  oldest first. The history is not program state; it records what the procedure did.
\<close>

datatype event = Measured attr rat | Adjusted attr rat

record lab =
  squidarray :: squidarray
  test_V :: rat
  n_meas :: nat
  history :: "event list"

type_synonym daq = "squidarray \<Rightarrow> nat \<Rightarrow> nat \<Rightarrow> rat"

record array_tune =
  squid_bias :: rat
  conversion :: rat
  squid_tol :: rat
  aflux_tol :: rat
  sflux_offset :: rat
  aflux_offset :: rat

text \<open>The constructor, with its fixed conversion factor.\<close>

definition ArrayTune :: "rat \<Rightarrow> rat \<Rightarrow> rat \<Rightarrow> rat \<Rightarrow> rat \<Rightarrow> array_tune" where
  "ArrayTune bias stol atol soff aoff =
     \<lparr>squid_bias = bias, conversion = 10, squid_tol = stol, aflux_tol = atol,
      sflux_offset = soff, aflux_offset = aoff\<rparr>"

text \<open>The defaults of the constructor's keyword arguments.\<close>

definition ArrayTune_default :: "rat \<Rightarrow> array_tune" where
  "ArrayTune_default bias = ArrayTune bias (100 / 1000) (10 / 1000) 0 0"

definition trace :: "nat \<Rightarrow> (nat \<Rightarrow> rat) \<Rightarrow> rat list" where
  "trace n f = map f [0..<n]"

definition mean :: "rat list \<Rightarrow> rat" where
  "mean xs = sum_list xs / of_nat (length xs)"

text \<open>
  \<open>acquire\<close> sends 2000 samples on the \<open>test\<close> output, records as many on \<open>saa\<close> and
  zeroes the output; of the returned tuple the procedure reads the last component, the
  \<open>saa\<close> trace. \<open>monitor\<close> records for 0.01 s at 100 kHz, that is 1000 samples.
\<close>

definition acquire :: "daq \<Rightarrow> lab \<Rightarrow> rat list \<times> lab" where
  "acquire D s =
     (trace 2000 (D (squidarray s) (n_meas s)),
      s\<lparr>test_V := 0, n_meas := Suc (n_meas s)\<rparr>)"

definition monitor :: "daq \<Rightarrow> lab \<Rightarrow> rat list \<times> lab" where
  "monitor D s =
     (trace 1000 (D (squidarray s) (n_meas s)), s\<lparr>n_meas := Suc (n_meas s)\<rparr>)"

definition tune_squid_setup :: "array_tune \<Rightarrow> lab \<Rightarrow> lab" where
  "tune_squid_setup self s =
     s\<lparr>squidarray :=
         reset ((lock ''Array'' (squidarray s))
           \<lparr>S_flux_lim := 150, S_flux := 0, testInput := ''S_flux'',
            testSignal := ''On'', S_bias := squid_bias self, sensitivity := ''High''\<rparr>)\<rparr>"

definition adjust :: "array_tune \<Rightarrow> attr \<Rightarrow> rat \<Rightarrow> lab \<Rightarrow> lab" where
  "adjust self a error s =
     (let sa = squidarray s;
          value = getattr sa a;
          sa' = (if value + error * conversion self < 0 then setattr sa a (value + 50)
                 else if value + error * conversion self > 150 then setattr sa a 0
                 else setattr sa a (value + conversion self * error))
      in s\<lparr>squidarray := reset sa', history := history s @ [Adjusted a error]\<rparr>)"

definition measured :: "attr \<Rightarrow> rat \<Rightarrow> lab \<Rightarrow> lab" where
  "measured a error s = s\<lparr>history := history s @ [Measured a error]\<rparr>"

text \<open>
  \<open>lock_squid\<close> and \<open>tune_squid\<close> call themselves with one attempt less. A counter that
  never reaches 0 gives no result, the value \<open>None\<close>; the bound of the interpreter on
  the depth of the recursion is not modelled. The messages printed are left out.
\<close>

partial_function (option) lock_squid ::
  "daq \<Rightarrow> array_tune \<Rightarrow> int \<Rightarrow> lab \<Rightarrow> (bool \<times> lab) option" where
  "lock_squid D self attempts s =
     (let s1 = s\<lparr>squidarray := reset ((lock ''Squid'' (squidarray s))\<lparr>testSignal := ''Off''\<rparr>)\<rparr>;
          ret = monitor D s1;
          error = mean (fst ret) - sflux_offset self;
          s2 = measured Attr_S_flux error (snd ret)
      in if \<bar>error\<bar> < squid_tol self then Some (True, s2)
         else if attempts = 0 then Some (False, s2)
         else lock_squid D self (attempts - 1) (adjust self Attr_S_flux error s2))"

partial_function (option) tune_squid ::
  "daq \<Rightarrow> array_tune \<Rightarrow> int \<Rightarrow> lab \<Rightarrow> (bool \<times> lab) option" where
  "tune_squid D self attempts s =
     (let char = acquire D (tune_squid_setup self s);
          error = mean (fst char) - aflux_offset self;
          s2 = measured Attr_A_flux error (snd char)
      in if \<bar>error\<bar> < aflux_tol self then lock_squid D self 5 s2
         else if attempts = 0 then Some (False, s2)
         else tune_squid D self (attempts - 1) (adjust self Attr_A_flux error s2))"

text \<open>Reading a history: the errors passed to \<open>adjust\<close> for an attribute, and the errors
  measured for it, in the order of the run.\<close>

fun adjust_calls :: "attr \<Rightarrow> event list \<Rightarrow> rat list" where
  "adjust_calls a [] = []"
| "adjust_calls a (Adjusted b e # h) =
     (if a = b then e # adjust_calls a h else adjust_calls a h)"
| "adjust_calls a (Measured b e # h) = adjust_calls a h"

fun errors :: "attr \<Rightarrow> event list \<Rightarrow> rat list" where
  "errors a [] = []"
| "errors a (Measured b e # h) = (if a = b then e # errors a h else errors a h)"
| "errors a (Adjusted b e # h) = errors a h"

text \<open>
  What a run of \<open>lock_squid\<close> with \<open>k\<close> attempts adds to the history: only SQUID-flux
  events, one adjustment after every measurement but the last, every measurement but the
  last out of tolerance, and the verdict is that of the last measurement.
\<close>

definition lock_shape :: "array_tune \<Rightarrow> nat \<Rightarrow> bool \<Rightarrow> event list \<Rightarrow> bool" where
  "lock_shape self k b h \<longleftrightarrow>
     adjust_calls Attr_A_flux h = [] \<and> errors Attr_A_flux h = [] \<and>
     errors Attr_S_flux h \<noteq> [] \<and>
     adjust_calls Attr_S_flux h = butlast (errors Attr_S_flux h) \<and>
     length (errors Attr_S_flux h) \<le> Suc k \<and>
     (\<forall>e \<in> set (butlast (errors Attr_S_flux h)). \<not> \<bar>e\<bar> < squid_tol self) \<and>
     (b \<longleftrightarrow> \<bar>last (errors Attr_S_flux h)\<bar> < squid_tol self) \<and>
     (\<not> b \<longrightarrow> length (errors Attr_S_flux h) = Suc k)"

text \<open>The same for \<open>tune_squid\<close>: the array-flux loop, then, if it met its tolerance, a
  run of \<open>lock_squid\<close> with the default five attempts.\<close>

definition tune_shape :: "array_tune \<Rightarrow> nat \<Rightarrow> bool \<Rightarrow> event list \<Rightarrow> bool" where
  "tune_shape self k b h \<longleftrightarrow>
     errors Attr_A_flux h \<noteq> [] \<and>
     adjust_calls Attr_A_flux h = butlast (errors Attr_A_flux h) \<and>
     length (errors Attr_A_flux h) \<le> Suc k \<and>
     (\<forall>e \<in> set (butlast (errors Attr_A_flux h)). \<not> \<bar>e\<bar> < aflux_tol self) \<and>
     (if \<bar>last (errors Attr_A_flux h)\<bar> < aflux_tol self
      then errors Attr_S_flux h \<noteq> [] \<and>
           adjust_calls Attr_S_flux h = butlast (errors Attr_S_flux h) \<and>
           length (errors Attr_S_flux h) \<le> 6 \<and>
           (\<forall>e \<in> set (butlast (errors Attr_S_flux h)). \<not> \<bar>e\<bar> < squid_tol self) \<and>
           (b \<longleftrightarrow> \<bar>last (errors Attr_S_flux h)\<bar> < squid_tol self) \<and>
           (\<not> b \<longrightarrow> length (errors Attr_S_flux h) = 6)
      else \<not> b \<and> length (errors Attr_A_flux h) = Suc k \<and>
           errors Attr_S_flux h = [] \<and> adjust_calls Attr_S_flux h = [])"

text \<open>Concrete inputs: a DAQ that reads 0 V while the array is locked and 1 V once the
  SQUID is locked, whatever the flux settings; electronics and laboratory at rest.\<close>

definition stuck_daq :: daq where
  "stuck_daq = (\<lambda>sa t i. if locked sa = ''Squid'' then 1 else 0)"

definition squidarray0 :: squidarray where
  "squidarray0 = \<lparr>A_flux = 0, S_flux = 0, S_flux_lim = 0, S_bias = 0, testInput = [],
     testSignal = [], sensitivity = [], locked = [], resets = 0\<rparr>"

definition lab0 :: lab where
  "lab0 = \<lparr>squidarray = squidarray0, test_V = 0, n_meas = 0, history = []\<rparr>"

text \<open>The return value of a run and the history it leaves.\<close>

definition summary :: "(bool \<times> lab) option \<Rightarrow> (bool \<times> event list) option" where
  "summary r = map_option (\<lambda>(b, s). (b, history s)) r"

text \<open>A DAQ that reads 0 V throughout.\<close>

definition quiet_daq :: daq where
  "quiet_daq = (\<lambda>sa t i. 0)"

text \<open>
  One pass of \<open>tune_squid\<close> from a state of the laboratory: the error it computes,
  \<open>mean(saa) - aflux_offset\<close> of the trace acquired after the setup; the state in which
  it returns or starts \<open>lock_squid\<close>; and the state in which it calls itself after the
  adjustment. The same for one pass of \<open>lock_squid\<close>, with \<open>mean(saa) - sflux_offset\<close>
  of the trace monitored once the SQUID is locked.
\<close>

definition array_error :: "daq \<Rightarrow> array_tune \<Rightarrow> lab \<Rightarrow> rat" where
  "array_error D self s =
     mean (fst (acquire D (tune_squid_setup self s))) - aflux_offset self"

definition tune_measured :: "daq \<Rightarrow> array_tune \<Rightarrow> lab \<Rightarrow> lab" where
  "tune_measured D self s =
     measured Attr_A_flux (array_error D self s) (snd (acquire D (tune_squid_setup self s)))"

definition tune_retry :: "daq \<Rightarrow> array_tune \<Rightarrow> lab \<Rightarrow> lab" where
  "tune_retry D self s =
     adjust self Attr_A_flux (array_error D self s) (tune_measured D self s)"

definition lock_setup :: "lab \<Rightarrow> lab" where
  "lock_setup s =
     s\<lparr>squidarray := reset ((lock ''Squid'' (squidarray s))\<lparr>testSignal := ''Off''\<rparr>)\<rparr>"

definition squid_error :: "daq \<Rightarrow> array_tune \<Rightarrow> lab \<Rightarrow> rat" where
  "squid_error D self s = mean (fst (monitor D (lock_setup s))) - sflux_offset self"

definition lock_measured :: "daq \<Rightarrow> array_tune \<Rightarrow> lab \<Rightarrow> lab" where
  "lock_measured D self s =
     measured Attr_S_flux (squid_error D self s) (snd (monitor D (lock_setup s)))"

definition lock_retry :: "daq \<Rightarrow> array_tune \<Rightarrow> lab \<Rightarrow> lab" where
  "lock_retry D self s =
     adjust self Attr_S_flux (squid_error D self s) (lock_measured D self s)"

text \<open>
  \<open>array_ok D self s k\<close>: started in \<open>s\<close>, the array-flux error measured on the DAQ
  after \<open>k\<close> adjustments satisfies \<open>|mean(saa) - aflux_offset| < aflux_tol\<close>.
  \<open>squid_ok D self s k j\<close>: with \<open>lock_squid\<close> started after those \<open>k\<close> adjustments, the
  SQUID-flux error measured after \<open>j\<close> further adjustments satisfies
  \<open>|mean(saa) - sflux_offset| < squid_tol\<close>.
\<close>

definition array_ok :: "daq \<Rightarrow> array_tune \<Rightarrow> lab \<Rightarrow> nat \<Rightarrow> bool" where
  "array_ok D self s k \<longleftrightarrow>
     \<bar>array_error D self ((tune_retry D self ^^ k) s)\<bar> < aflux_tol self"

definition squid_ok :: "daq \<Rightarrow> array_tune \<Rightarrow> lab \<Rightarrow> nat \<Rightarrow> nat \<Rightarrow> bool" where
  "squid_ok D self s k j \<longleftrightarrow>
     \<bar>squid_error D self
        ((lock_retry D self ^^ j) (tune_measured D self ((tune_retry D self ^^ k) s)))\<bar>
       < squid_tol self"

section \<open>The DAQ driver (Instruments/nidaq.py)\<close>

text \<open>Python exceptions are values; a function that can raise returns \<open>py_error + 'a\<close>.\<close>

datatype py_error =
  AttributeError | IndexError | KeyError | TypeError | ValueError | EOFError | OSError
  | Exception string

subsection \<open>numpy.linspace and accel\_function\<close>

text \<open>
  \<open>numpy.linspace(start, stop, num)\<close> with the end point included: \<open>num\<close> evenly spaced
  samples, the single sample \<open>start\<close> for \<open>num = 1\<close>, and a ValueError for a negative
  \<open>num\<close>.
\<close>

definition linspace :: "rat \<Rightarrow> rat \<Rightarrow> int \<Rightarrow> py_error + rat list" where
  "linspace start stop num =
     (if num < 0 then Inl ValueError
      else if num = 1 then Inr [start]
      else Inr (map (\<lambda>i. start + of_nat i * ((stop - start) / of_int (num - 1)))
                  [0..<nat num]))"

text \<open>Python's \<open>xs * k\<close> on a list: \<open>k\<close> copies of \<open>xs\<close>, none for \<open>k \<le> 0\<close>.\<close>

definition list_times :: "'a list \<Rightarrow> int \<Rightarrow> 'a list" where
  "list_times xs k = concat (replicate (nat k) xs)"

definition accel_function :: "rat \<Rightarrow> rat \<Rightarrow> int \<Rightarrow> py_error + rat list" where
  "accel_function start endv numpts =
     (if start = endv then Inr (list_times (list_times [start] numpts) 2)
      else case linspace start ((endv - start) / 2 + start) numpts of
        Inl e \<Rightarrow> Inl e
      | Inr part1arg \<Rightarrow>
         (case linspace ((endv - start) / 2 + start) endv numpts of
            Inl e \<Rightarrow> Inl e
          | Inr part2arg \<Rightarrow>
             (let part1 = map (\<lambda>x. start +
                              (x - start)\<^sup>2 / ((endv - start) / 2)\<^sup>2 * (endv - start) / 2)
                            part1arg;
                  part2 = map (\<lambda>x. endv -
                              (x - endv)\<^sup>2 / ((endv - start) / 2)\<^sup>2 * (endv - start) / 2)
                            part2arg
              in Inr (part1 @ drop 1 part2))))"

subsection \<open>Python objects in a store\<close>

text \<open>
  \<open>send_receive\<close> copies its argument so as not to modify it, so lists and dicts live in
  a store and are passed by address. An object is a list of numbers or a dict from
  channel names to addresses; a dict keeps its keys in insertion order. Allocation
  extends the store at its end.
\<close>

type_synonym addr = nat

datatype pyobj = ListObj "rat list" | DictObj "(string \<times> addr) list"

type_synonym store = "pyobj list"

definition alloc :: "pyobj \<Rightarrow> store \<Rightarrow> addr \<times> store" where
  "alloc ob h = (length h, h @ [ob])"

definition deref :: "store \<Rightarrow> addr \<Rightarrow> pyobj option" where
  "deref h a = (if a < length h then Some (h ! a) else None)"

text \<open>\<open>d[k] = v\<close> on a dict: replace the value of an existing key, else append the key.\<close>

fun dict_set :: "('k \<times> 'v) list \<Rightarrow> 'k \<Rightarrow> 'v \<Rightarrow> ('k \<times> 'v) list" where
  "dict_set [] k v = [(k, v)]"
| "dict_set ((k', v') # kvs) k v =
     (if k' = k then (k, v) # kvs else (k', v') # dict_set kvs k v)"

fun len :: "pyobj \<Rightarrow> nat" where
  "len (ListObj xs) = length xs"
| "len (DictObj kvs) = length kvs"

subsection \<open>The driver object and the hardware\<close>

text \<open>
  What reaches the hardware: a voltage written to an output channel by \<open>set_chan\<close>, and
  a task run with the data for every output channel, the number of samples and the rate.
  The answer of the hardware to a task is a parameter of the model.
\<close>

datatype hw_event = Write string rat | Run "(string \<times> rat list) list" nat rat

type_synonym hardware = "(string \<times> rat list) list \<Rightarrow> nat \<Rightarrow> (string \<times> rat list) list"

record nidaq =
  ao_channels :: "string list"
  ai_channels :: "string list"
  ao_values :: "(string \<times> rat) list"
  inputs_to_monitor :: "string list"
  hw :: "hw_event list"
  store :: store

text \<open>
  \<open>chan_out\<close> is a channel name or a list of names; with a name, \<open>sweep\<close> takes two
  voltages, with a list two dicts of voltages.
\<close>

datatype chan_out = Scalar string | Chans "string list"

text \<open>
  \<open>setattr(self, ch, v)\<close>: an output channel is a property whose setter is \<open>set_chan\<close>,
  which stores the value and writes it to the hardware; an input channel is a property
  without a setter; any other name is a plain attribute, which the model does not keep.
\<close>

definition set_chan :: "string \<Rightarrow> rat \<Rightarrow> nidaq \<Rightarrow> nidaq" where
  "set_chan chan v self =
     self\<lparr>ao_values := dict_set (ao_values self) chan v, hw := hw self @ [Write chan v]\<rparr>"

definition setattr_chan :: "string \<Rightarrow> rat \<Rightarrow> nidaq \<Rightarrow> py_error + nidaq" where
  "setattr_chan ch v self =
     (if ch \<in> set (ao_channels self) then Inr (set_chan ch v self)
      else if ch \<in> set (ai_channels self) then Inl AttributeError
      else Inr self)"

text \<open>The loop over the output channels of \<open>send_receive\<close>; \<open>data\<close> is the address of the
  dict of the data, \<open>write_data\<close> the dict built for the task.\<close>

fun handle_outputs ::
  "string list \<Rightarrow> addr \<Rightarrow> (string \<times> rat list) list \<Rightarrow> nidaq \<Rightarrow>
     (py_error + (string \<times> rat list) list) \<times> nidaq" where
  "handle_outputs [] data write_data self = (Inr write_data, self)"
| "handle_outputs (ch # chs) data write_data self =
     (case deref (store self) data of
        None \<Rightarrow> (Inl TypeError, self)
      | Some (ListObj _) \<Rightarrow> (Inl TypeError, self)
      | Some (DictObj kvs) \<Rightarrow>
         (case map_of kvs ch of
            None \<Rightarrow> (Inl KeyError, self)
          | Some ad \<Rightarrow>
             (case deref (store self) ad of
                None \<Rightarrow> (Inl TypeError, self)
              | Some (DictObj _) \<Rightarrow> (Inl KeyError, self)
              | Some (ListObj []) \<Rightarrow> (Inl IndexError, self)
              | Some (ListObj (d0 # ds)) \<Rightarrow>
                 (case setattr_chan ch d0 self of
                    Inl e \<Rightarrow> (Inl e, self)
                  | Inr self1 \<Rightarrow>
                     (let d = d0 # ds;
                          (a1, h1) = alloc (ListObj d) (store self1);
                          d' = d @ [d ! (length d - 1)];
                          (a2, h2) = alloc (ListObj d') h1;
                          h3 = h2[data := DictObj (dict_set kvs ch a2)]
                      in handle_outputs chs data (dict_set write_data ch d')
                           (self1\<lparr>store := h3\<rparr>))))))"

text \<open>Channel numbers: the decimal digits of a channel name, read as a number.\<close>

definition isdigit :: "char \<Rightarrow> bool" where
  "isdigit c \<longleftrightarrow> c \<in> set ''0123456789''"

definition digit_val :: "char \<Rightarrow> nat" where
  "digit_val c = of_char c - 48"

definition int_of_digits :: "string \<Rightarrow> py_error + nat" where
  "int_of_digits ds =
     (if ds = [] then Inl ValueError
      else Inr (foldl (\<lambda>n c. 10 * n + digit_val c) 0 ds))"

fun ch_nums :: "string list \<Rightarrow> py_error + nat list" where
  "ch_nums [] = Inr []"
| "ch_nums (y # ys) =
     (case int_of_digits (filter isdigit y) of
        Inl e \<Rightarrow> Inl e
      | Inr n \<Rightarrow> (case ch_nums ys of Inl e \<Rightarrow> Inl e | Inr ns \<Rightarrow> Inr (n # ns)))"

text \<open>\<open>'%i' % n\<close> for a natural number.\<close>

function show_nat :: "nat \<Rightarrow> string" where
  "show_nat n =
     (if n < 10 then [char_of (48 + n)]
      else show_nat (n div 10) @ [char_of (48 + n mod 10)])"
  by pat_completeness auto
termination
  by (relation "measure id") auto

declare show_nat.simps [simp del]

text \<open>The loop over the monitored inputs: the first sample of the lowest-numbered
  channel and the last sample of every other channel are dropped.\<close>

fun collect_inputs ::
  "string list \<Rightarrow> string \<Rightarrow> (string \<times> rat list) list \<Rightarrow> (string \<times> rat list) list \<Rightarrow>
     py_error + (string \<times> rat list) list" where
  "collect_inputs [] min_chan received data_in = Inr data_in"
| "collect_inputs (ch # chs) min_chan received data_in =
     (case map_of received ch of
        None \<Rightarrow> Inl KeyError
      | Some d \<Rightarrow>
         collect_inputs chs min_chan received
           (dict_set data_in ch (if ch = min_chan then drop 1 d else take (length d - 1) d)))"

text \<open>\<open>len(data[ch])\<close> for a dict \<open>data\<close> of lists in the store.\<close>

definition item_len :: "store \<Rightarrow> addr \<Rightarrow> string \<Rightarrow> py_error + nat" where
  "item_len h data ch =
     (case deref h data of
        Some (DictObj kvs) \<Rightarrow>
          (case map_of kvs ch of
             None \<Rightarrow> Inl KeyError
           | Some ad \<Rightarrow> (case deref h ad of None \<Rightarrow> Inl TypeError | Some ob \<Rightarrow> Inr (len ob)))
      | _ \<Rightarrow> Inl TypeError)"

text \<open>
  The end of \<open>send_receive\<close>: the timing of the task from the length of the data of the
  first channel, the run of the task, and the trimming of what was received.
\<close>

definition run_task ::
  "hardware \<Rightarrow> string list \<Rightarrow> addr \<Rightarrow> rat \<Rightarrow> (string \<times> rat list) list \<Rightarrow> nidaq \<Rightarrow>
     (py_error + (string \<times> rat list) list \<times> rat list) \<times> nidaq" where
  "run_task task_run chans data freq write_data self =
     (case chans of
        [] \<Rightarrow> (Inl IndexError, self)
      | c0 # _ \<Rightarrow>
         (case item_len (store self) data c0 of
            Inl e \<Rightarrow> (Inl e, self)
          | Inr n_samples \<Rightarrow>
             (let self1 = self\<lparr>hw := hw self @ [Run write_data n_samples freq]\<rparr>;
                  received = task_run write_data n_samples
              in (case ch_nums (inputs_to_monitor self1) of
                    Inl e \<Rightarrow> (Inl e, self1)
                  | Inr [] \<Rightarrow> (Inl ValueError, self1)
                  | Inr (n # ns) \<Rightarrow>
                     (let min_chan = ''ai'' @ show_nat (fold min ns n)
                      in case collect_inputs (inputs_to_monitor self1) min_chan received [] of
                           Inl e \<Rightarrow> (Inl e, self1)
                         | Inr data_in \<Rightarrow>
                            (case map_of received ''t'' of
                               None \<Rightarrow> (Inl KeyError, self1)
                             | Some time \<Rightarrow>
                                (Inr (data_in, take (length time - 1) time), self1)))))))"

text \<open>
  \<open>send_receive\<close> once \<open>chan_out\<close> is a list and \<open>data\<close> the address of the copy: the
  check of the lengths, the lookup of the channels on the device, the loop over the
  outputs, and the run of the task.
\<close>

definition send_data ::
  "hardware \<Rightarrow> string list \<Rightarrow> addr \<Rightarrow> rat \<Rightarrow> nidaq \<Rightarrow>
     (py_error + (string \<times> rat list) list \<times> rat list) \<times> nidaq" where
  "send_data task_run chans data freq self =
     (if (case deref (store self) data of None \<Rightarrow> True | Some ob \<Rightarrow> length chans \<noteq> len ob)
      then (Inl (Exception ''Must have data for each output channel!''), self)
      else if \<not> list_all (\<lambda>ch. ch \<in> set (ao_channels self @ ai_channels self))
                    (chans @ inputs_to_monitor self)
      then (Inl AttributeError, self)
      else
        (case handle_outputs chans data [] self of
           (Inl e, self1) \<Rightarrow> (Inl e, self1)
         | (Inr write_data, self1) \<Rightarrow> run_task task_run chans data freq write_data self1))"

text \<open>
  \<open>send_receive\<close>: \<open>orig_data\<close> is the address of the caller's list or dict. It is
  copied; for a single channel the copy is wrapped into a new dict and the channel into
  a list.
\<close>

definition send_receive ::
  "hardware \<Rightarrow> chan_out \<Rightarrow> addr \<Rightarrow> rat \<Rightarrow> nidaq \<Rightarrow>
     (py_error + (string \<times> rat list) list \<times> rat list) \<times> nidaq" where
  "send_receive task_run chan_out orig_data freq self =
     (case deref (store self) orig_data of
        None \<Rightarrow> (Inl TypeError, self)
      | Some ob \<Rightarrow>
         (let (copied, h1) = alloc ob (store self)
          in case chan_out of
               Scalar c \<Rightarrow>
                 (let (data, h2) = alloc (DictObj [(c, copied)]) h1
                  in send_data task_run [c] data freq (self\<lparr>store := h2\<rparr>))
             | Chans cs \<Rightarrow> send_data task_run cs copied freq (self\<lparr>store := h1\<rparr>)))"

subsection \<open>sweep\<close>

text \<open>The arguments \<open>chan_out\<close>, \<open>Vstart\<close>, \<open>Vend\<close> of \<open>sweep\<close>: a channel with two
  voltages, or a list of channels with two dicts of voltages.\<close>

datatype sweep_call =
  Single string rat rat
| Multi "string list" "(string \<times> rat) list" "(string \<times> rat) list"

fun sweep_chans :: "sweep_call \<Rightarrow> string list" where
  "sweep_chans (Single c a b) = [c]"
| "sweep_chans (Multi cs vs ve) = cs"

fun sweep_Vstart :: "sweep_call \<Rightarrow> (string \<times> rat) list" where
  "sweep_Vstart (Single c a b) = [(c, a)]"
| "sweep_Vstart (Multi cs vs ve) = vs"

fun sweep_Vend :: "sweep_call \<Rightarrow> (string \<times> rat) list" where
  "sweep_Vend (Single c a b) = [(c, b)]"
| "sweep_Vend (Multi cs vs ve) = ve"

text \<open>
  The loop over the keys of \<open>Vstart\<close>: the ramp of each channel, the range check, and with
  \<open>accel\<close> the acceleration to the first value and from the last one.
\<close>

fun ramps ::
  "string list \<Rightarrow> (string \<times> rat) list \<Rightarrow> (string \<times> rat) list \<Rightarrow> int \<Rightarrow> bool \<Rightarrow>
     (string \<times> rat list) list \<Rightarrow> py_error + (string \<times> rat list) list" where
  "ramps [] Vstart Vend numsteps accel V = Inr V"
| "ramps (k # ks) Vstart Vend numsteps accel V =
     (case map_of Vstart k of
        None \<Rightarrow> Inl KeyError
      | Some a \<Rightarrow>
         (case map_of Vend k of
            None \<Rightarrow> Inl KeyError
          | Some b \<Rightarrow>
             (case linspace a b numsteps of
                Inl e \<Rightarrow> Inl e
              | Inr vs \<Rightarrow>
                 if max \<bar>a\<bar> \<bar>b\<bar> > 10 then Inl (Exception ''NIDAQ out of range!'')
                 else if accel then
                   (case vs of
                      [] \<Rightarrow> Inl IndexError
                    | v0 # _ \<Rightarrow>
                       (case accel_function 0 v0 250 of
                          Inl e \<Rightarrow> Inl e
                        | Inr up \<Rightarrow>
                           (case accel_function (last (up @ vs)) 0 250 of
                              Inl e \<Rightarrow> Inl e
                            | Inr down \<Rightarrow>
                               ramps ks Vstart Vend numsteps accel
                                 (dict_set V k ((up @ vs) @ down)))))
                 else ramps ks Vstart Vend numsteps accel (dict_set V k vs))))"

text \<open>Putting the dict \<open>V\<close> of ramps into the store, and reading it back.\<close>

fun alloc_lists ::
  "(string \<times> rat list) list \<Rightarrow> store \<Rightarrow> (string \<times> addr) list \<times> store" where
  "alloc_lists [] h = ([], h)"
| "alloc_lists ((k, xs) # V) h =
     (let (a, h1) = alloc (ListObj xs) h; (kvs, h2) = alloc_lists V h1
      in ((k, a) # kvs, h2))"

definition alloc_dict :: "(string \<times> rat list) list \<Rightarrow> store \<Rightarrow> addr \<times> store" where
  "alloc_dict V h = (let (kvs, h1) = alloc_lists V h in alloc (DictObj kvs) h1)"

fun read_lists :: "store \<Rightarrow> (string \<times> addr) list \<Rightarrow> (string \<times> rat list) list" where
  "read_lists h [] = []"
| "read_lists h ((k, a) # kvs) =
     (case deref h a of
        Some (ListObj xs) \<Rightarrow> (k, xs) # read_lists h kvs
      | _ \<Rightarrow> read_lists h kvs)"

definition read_dict :: "store \<Rightarrow> addr \<Rightarrow> (string \<times> rat list) list" where
  "read_dict h a = (case deref h a of Some (DictObj kvs) \<Rightarrow> read_lists h kvs | _ \<Rightarrow> [])"

text \<open>
  \<open>sweep\<close>: the ramps are computed first, then sent with \<open>send_receive\<close>. With \<open>accel\<close>
  the trimming after the measurement slices the dict \<open>response\<close>, which raises; the
  trimmed ramps are lost with the exception.
\<close>

definition sweep ::
  "hardware \<Rightarrow> sweep_call \<Rightarrow> rat \<Rightarrow> int \<Rightarrow> bool \<Rightarrow> nidaq \<Rightarrow>
     (py_error + (string \<times> rat list) list \<times> (string \<times> rat list) list \<times> rat list)
       \<times> nidaq" where
  "sweep task_run call freq numsteps accel self =
     (case ramps (map fst (sweep_Vstart call)) (sweep_Vstart call) (sweep_Vend call)
             numsteps accel [] of
        Inl e \<Rightarrow> (Inl e, self)
      | Inr V \<Rightarrow>
         (let (aV, h1) = alloc_dict V (store self)
          in case send_receive task_run (Chans (sweep_chans call)) aV freq
                    (self\<lparr>store := h1\<rparr>) of
               (Inl e, self1) \<Rightarrow> (Inl e, self1)
             | (Inr (response, time), self1) \<Rightarrow>
                 if accel then (Inl TypeError, self1)
                 else (Inr (read_dict (store self1) aV, response, time), self1)))"

text \<open>The range check of \<open>sweep\<close> for one channel.\<close>

definition out_of_range :: "(string \<times> rat) list \<Rightarrow> (string \<times> rat) list \<Rightarrow> string \<Rightarrow> bool" where
  "out_of_range Vstart Vend k =
     (case (map_of Vstart k, map_of Vend k) of
        (Some a, Some b) \<Rightarrow> max \<bar>a\<bar> \<bar>b\<bar> > 10
      | _ \<Rightarrow> False)"

text \<open>Concrete inputs: a device with two outputs and one monitored input, and hardware
  that answers a task with zeros on the input and the sample numbers as times.\<close>

definition dev0 :: nidaq where
  "dev0 = \<lparr>ao_channels = [''ao0'', ''ao1''], ai_channels = [''ai23''], ao_values = [],
     inputs_to_monitor = [''ai23''], hw = [], store = []\<rparr>"

definition echo :: hardware where
  "echo write_data n = [(''ai23'', replicate n 0), (''t'', map of_nat [0..<n])]"

text \<open>The same device with a caller's list at address 0 and a caller's dict at address 1.\<close>

definition dev1 :: nidaq where
  "dev1 = dev0\<lparr>store := [ListObj [1, 2, 3], DictObj [(''ao0'', 0)]]\<rparr>"

section \<open>The HDF5 dataset layer (Utilities/dataset.py)\<close>

subsection \<open>An HDF5 file\<close>

text \<open>
  The h5py library is not part of the sources. A file is a tree: a dataset holds data, a
  group holds named members, and the file itself is the root group. A path is a string
  of names separated by \<open>/\<close>; h5py ignores leading, trailing and repeated separators
  and the name \<open>.\<close> of the current group.
  \<open>f[path]\<close> raises KeyError when the path does not lead to an object, and
  \<open>create_dataset\<close> creates the missing groups on the way and fails when the name
  exists already or when the path leads through a dataset.
\<close>

datatype 'a h5 = H5Dataset 'a | H5Group "(string \<times> 'a h5) list"

text \<open>Python's \<open>s.split(sep)\<close> for a separator of one character.\<close>

fun split :: "char \<Rightarrow> string \<Rightarrow> string list" where
  "split sep [] = [] # []"
| "split sep (c # cs) =
     (if c = sep then [] # split sep cs
      else (case split sep cs of
              [] \<Rightarrow> [c] # []
            | w # ws \<Rightarrow> (c # w) # ws))"

text \<open>Python's \<open>sep.join(xs)\<close>.\<close>

fun join :: "string \<Rightarrow> string list \<Rightarrow> string" where
  "join sep [] = []"
| "join sep [x] = x"
| "join sep (x # y # ys) = x @ sep @ join sep (y # ys)"

definition h5_keys :: "string \<Rightarrow> string list" where
  "h5_keys path = filter (\<lambda>k. k \<noteq> [] \<and> k \<noteq> ''.'') (split CHR ''/'' path)"

fun lookup :: "'a h5 \<Rightarrow> string list \<Rightarrow> 'a h5 option" where
  "lookup t [] = Some t"
| "lookup (H5Dataset d) (k # ks) = None"
| "lookup (H5Group ms) (k # ks) =
     (case map_of ms k of None \<Rightarrow> None | Some t \<Rightarrow> lookup t ks)"

fun create_dataset :: "'a h5 \<Rightarrow> string list \<Rightarrow> 'a \<Rightarrow> py_error + 'a h5" where
  "create_dataset t [] d = Inl ValueError"
| "create_dataset (H5Dataset x) (k # ks) d = Inl ValueError"
| "create_dataset (H5Group ms) [k] d =
     (case map_of ms k of
        None \<Rightarrow> Inr (H5Group (ms @ [(k, H5Dataset d)]))
      | Some t \<Rightarrow> Inl ValueError)"
| "create_dataset (H5Group ms) (k # k' # ks) d =
     (case map_of ms k of
        None \<Rightarrow>
          (case create_dataset (H5Group []) (k' # ks) d of
             Inl e \<Rightarrow> Inl e
           | Inr t' \<Rightarrow> Inr (H5Group (ms @ [(k, t')])))
      | Some t \<Rightarrow>
          (case create_dataset t (k' # ks) d of
             Inl e \<Rightarrow> Inl e
           | Inr t' \<Rightarrow> Inr (H5Group (dict_set ms k t'))))"

subsection \<open>Dataset.get\<close>

text \<open>What \<open>get\<close> returns: the contents of a dataset, or a nested dict of them.\<close>

datatype 'a pyval = Leaf 'a | Dict "(string \<times> 'a pyval) list"

text \<open>
  \<open>visititems\<close> calls its function on every object below a group, with the name of the
  object relative to that group; a group comes before its members.
\<close>

fun visititems :: "string list \<Rightarrow> 'a h5 \<Rightarrow> (string \<times> 'a h5) list"
  and visitmembers :: "string list \<Rightarrow> (string \<times> 'a h5) list \<Rightarrow> (string \<times> 'a h5) list" where
  "visititems pre (H5Dataset d) = []"
| "visititems pre (H5Group ms) = visitmembers pre ms"
| "visitmembers pre [] = []"
| "visitmembers pre ((k, t) # ms) =
     (join ''/'' (pre @ [k]), t) # visititems (pre @ [k]) t @ visitmembers pre ms"

text \<open>
  The walk of \<open>_loaddict\<close> down \<open>datadict\<close> along the keys of the path, creating the
  missing dicts, and the assignment of the contents at the last key.
\<close>

fun store_at :: "'a pyval \<Rightarrow> string list \<Rightarrow> 'a \<Rightarrow> py_error + 'a pyval" where
  "store_at t [] v = Inl IndexError"
| "store_at (Leaf x) (k # ks) v = Inl IndexError"
| "store_at (Dict kvs) [k] v = Inr (Dict (dict_set kvs k (Leaf v)))"
| "store_at (Dict kvs) (k # k' # ks) v =
     (case store_at (case map_of kvs k of None \<Rightarrow> Dict [] | Some sub \<Rightarrow> sub)
             (k' # ks) v of
        Inl e \<Rightarrow> Inl e
      | Inr sub' \<Rightarrow> Inr (Dict (dict_set kvs k sub')))"

definition loaddict :: "'a pyval \<Rightarrow> string \<Rightarrow> 'a h5 \<Rightarrow> py_error + 'a pyval" where
  "loaddict datadict path obj =
     (case obj of
        H5Dataset d \<Rightarrow> store_at datadict (split CHR ''/'' path) d
      | H5Group ms \<Rightarrow> Inr datadict)"

fun loadall :: "'a pyval \<Rightarrow> (string \<times> 'a h5) list \<Rightarrow> py_error + 'a pyval" where
  "loadall datadict [] = Inr datadict"
| "loadall datadict ((path, obj) # items) =
     (case loaddict datadict path obj of
        Inl e \<Rightarrow> Inl e
      | Inr datadict' \<Rightarrow> loadall datadict' items)"

text \<open>\<open>get(path)\<close> without a slice. For a group, \<open>visititems\<close> is called on the file \<open>f\<close>.\<close>

definition get :: "'a h5 \<Rightarrow> string \<Rightarrow> py_error + 'a pyval" where
  "get f path =
     (case lookup f (h5_keys path) of
        None \<Rightarrow> Inl KeyError
      | Some (H5Dataset d) \<Rightarrow> Inr (Leaf d)
      | Some (H5Group ms) \<Rightarrow> loadall (Dict []) (visititems [] f))"

text \<open>
  The nested dict that mirrors a group: a key for every member, the contents of a
  dataset at a leaf. This is the dict that the docstring of \<open>get\<close> describes.
\<close>

fun mirror :: "'a h5 \<Rightarrow> 'a pyval"
  and mirror_members :: "(string \<times> 'a h5) list \<Rightarrow> (string \<times> 'a pyval) list" where
  "mirror (H5Dataset d) = Leaf d"
| "mirror (H5Group ms) = Dict (mirror_members ms)"
| "mirror_members [] = []"
| "mirror_members ((k, t) # ms) = (k, mirror t) # mirror_members ms"

text \<open>A file with two groups, \<open>a\<close> holding the dataset \<open>x\<close> and \<open>b\<close> holding \<open>y\<close>.\<close>

definition file_ab :: "int h5" where
  "file_ab = H5Group [(''a'', H5Group [(''x'', H5Dataset 1)]),
                      (''b'', H5Group [(''y'', H5Dataset 2)])]"

text \<open>The same file with a dataset \<open>w\<close> in a new group \<open>z\<close> of a new group \<open>c\<close>.\<close>

definition file_abc :: "int h5" where
  "file_abc = H5Group [(''a'', H5Group [(''x'', H5Dataset 1)]),
                       (''b'', H5Group [(''y'', H5Dataset 2)]),
                       (''c'', H5Group [(''z'', H5Group [(''w'', H5Dataset 7)])])]"

subsection \<open>Dataset.\_writetoh5\<close>

text \<open>
  The user at the prompt is the list of the replies still to come; \<open>input\<close> raises
  EOFError when there is none. \<open>_writetoh5\<close> returns the new file, the replies left and
  the paths for which it prompted.
\<close>

fun writetoh5 ::
  "'a h5 \<Rightarrow> string \<Rightarrow> 'a \<Rightarrow> string list \<Rightarrow> py_error + 'a h5 \<times> string list \<times> string list" where
  "writetoh5 f path data replies =
     (case lookup f (h5_keys path) of
        Some ob \<Rightarrow>
          (case replies of
             [] \<Rightarrow> Inl EOFError
           | newpath # rest \<Rightarrow>
               (case writetoh5 f newpath data rest of
                  Inl e \<Rightarrow> Inl e
                | Inr (f', rest', prompts) \<Rightarrow> Inr (f', rest', path # prompts)))
      | None \<Rightarrow>
          (case create_dataset f (h5_keys path) data of
             Inl e \<Rightarrow> Inl e
           | Inr f' \<Rightarrow> Inr (f', replies, [])))"

declare writetoh5.simps [simp del]

subsection \<open>Dataset.\_appenddatah5\<close>

text \<open>
  Arrays are one-dimensional, with elements that are NaN or a number, and a slice is
  \<open>lo:hi\<close>. The files on disk are a map from file names to trees. Opening a file in mode
  \<open>r+\<close> raises OSError when it does not exist; mode \<open>a\<close> creates it. \<open>create_dataset\<close>
  with a shape and no data gives an array of zeros.
\<close>

datatype cell = NaN | Val rat

type_synonym files = "string \<rightharpoonup> cell list h5"

definition isnan :: "cell \<Rightarrow> bool" where
  "isnan c \<longleftrightarrow> c = NaN"

fun getslice :: "'a list \<Rightarrow> nat \<times> nat \<Rightarrow> 'a list" where
  "getslice xs (lo, hi) = take (hi - lo) (drop lo xs)"

text \<open>\<open>xs[lo:hi] = ys\<close> for \<open>ys\<close> of the shape of \<open>xs[lo:hi]\<close>.\<close>

fun setslice :: "'a list \<Rightarrow> nat \<times> nat \<Rightarrow> 'a list \<Rightarrow> 'a list" where
  "setslice xs (lo, hi) ys = take lo xs @ ys @ drop (lo + length ys) xs"

text \<open>Writing the contents of the dataset at a path of a file.\<close>

fun write_dataset :: "'a h5 \<Rightarrow> string list \<Rightarrow> 'a \<Rightarrow> 'a h5" where
  "write_dataset (H5Dataset x) [] d = H5Dataset d"
| "write_dataset (H5Group ms) [] d = H5Group ms"
| "write_dataset (H5Dataset x) (k # ks) d = H5Dataset x"
| "write_dataset (H5Group ms) (k # ks) d =
     (case map_of ms k of
        None \<Rightarrow> H5Group ms
      | Some t \<Rightarrow> H5Group (dict_set ms k (write_dataset t ks d)))"

text \<open>
  \<open>_appenddatah5\<close> returns or raises, and leaves the files and the replies not yet read.
  In the branch taken when the reply is not \<open>OVERWRITE\<close>, the dataset is created in the
  file \<open>fao\<close> and the slice is assigned in the file \<open>f\<close>.
\<close>

fun appenddatah5 ::
  "files \<Rightarrow> string \<Rightarrow> cell list \<Rightarrow> string \<Rightarrow> nat \<times> nat \<Rightarrow> string list \<Rightarrow>
     (py_error + unit) \<times> files \<times> string list" where
  "appenddatah5 fs filename numpyarray pathtowrite slice replies =
     (case fs filename of
        None \<Rightarrow> (Inl OSError, fs, replies)
      | Some f \<Rightarrow>
         (case lookup f (h5_keys pathtowrite) of
            None \<Rightarrow> (Inl KeyError, fs, replies)
          | Some (H5Group ms) \<Rightarrow> (Inl TypeError, fs, replies)
          | Some (H5Dataset dataset) \<Rightarrow>
             if length numpyarray \<noteq> length (getslice dataset slice)
             then (Inl (Exception ''Slice and data are not the same shape''), fs, replies)
             else if list_all isnan (getslice dataset slice)
             then (Inr (),
                   fs(filename \<mapsto> write_dataset f (h5_keys pathtowrite)
                                     (setslice dataset slice numpyarray)),
                   replies)
             else
               (case replies of
                  [] \<Rightarrow> (Inl EOFError, fs, replies)
                | shouldoverwrite # rest \<Rightarrow>
                   if shouldoverwrite = ''OVERWRITE''
                   then (Inr (),
                         fs(filename \<mapsto> write_dataset f (h5_keys pathtowrite)
                                           (setslice dataset slice numpyarray)),
                         rest)
                   else
                     (let fao_name = ''antioverwrite_'' @ filename;
                          fao = (case fs fao_name of None \<Rightarrow> H5Group [] | Some t \<Rightarrow> t)
                      in case create_dataset fao (h5_keys pathtowrite)
                                (replicate (length dataset) (Val 0)) of
                           Inr fao' \<Rightarrow>
                             (Inr (),
                              fs(fao_name \<mapsto> fao',
                                 filename \<mapsto> write_dataset f (h5_keys pathtowrite)
                                              (setslice dataset slice numpyarray)),
                              rest)
                         | Inl e \<Rightarrow>
                             appenddatah5 (fs(fao_name \<mapsto> fao))
                               (filename @ ''_antioverwrite'') numpyarray pathtowrite
                               slice rest))))"

declare appenddatah5.simps [simp del]

text \<open>A disk with one file, holding the array \<open>[1, 2]\<close> at \<open>x\<close>.\<close>

definition disk0 :: files where
  "disk0 = [''data.h5'' \<mapsto> H5Group [(''x'', H5Dataset [Val 1, Val 2])]]"

subsection \<open>Dataset.sanitize\<close>

text \<open>
  The values that \<open>sanitize\<close> tells apart: a \<open>str\<close>, a \<open>float\<close>, an \<open>int\<close>, a \<open>list\<close>,
  a numpy array with its dtype, a dict, and any other object. The four dtypes that
  \<open>numpy.dtype\<close> gives for \<open>float\<close>, \<open>int\<close>, \<open>complex\<close> and \<open>uint\<close> are named; an
  element of an array is a number, a string or another object.
\<close>

datatype dtype = Dfloat | Dint | Dcomplex | Duint | Dother string

datatype elem = ENum rat | EStr string | EObj

datatype py =
  PStr string | PFloat rat | PInt int | PList "py list" | PArray dtype "elem list"
  | PDict "(string \<times> py) list" | POther nat

text \<open>
  \<open>numpy.array(data, dtype='float')\<close>: a number is converted, a string is parsed and
  raises ValueError when it is not a number, another object raises TypeError. The
  parser is a parameter.
\<close>

fun to_float :: "(string \<Rightarrow> rat option) \<Rightarrow> elem list \<Rightarrow> py_error + elem list" where
  "to_float parse [] = Inr []"
| "to_float parse (ENum r # es) =
     (case to_float parse es of Inl e \<Rightarrow> Inl e | Inr es' \<Rightarrow> Inr (ENum r # es'))"
| "to_float parse (EStr s # es) =
     (case parse s of
        None \<Rightarrow> Inl ValueError
      | Some r \<Rightarrow> (case to_float parse es of Inl e \<Rightarrow> Inl e | Inr es' \<Rightarrow> Inr (ENum r # es')))"
| "to_float parse (EObj # es) = Inl TypeError"

text \<open>
  \<open>sanitize\<close>, with \<open>str\<close> as a parameter that gives no string when the conversion
  raises, and the replies of the user at the prompt. The list of allowed types holds the
  four names and the types \<open>str\<close>, \<open>float\<close>, \<open>int\<close> and \<open>list\<close>; the type of a value
  is never one of the names.
\<close>

fun sanitize ::
    "(string \<Rightarrow> rat option) \<Rightarrow> (py \<Rightarrow> string option) \<Rightarrow> py \<Rightarrow> string list \<Rightarrow>
       py_error + py \<times> string list"
  and sanitize_items ::
    "(string \<Rightarrow> rat option) \<Rightarrow> (py \<Rightarrow> string option) \<Rightarrow> (string \<times> py) list \<Rightarrow>
       (string \<times> py) list \<Rightarrow> string list \<Rightarrow> py_error + (string \<times> py) list \<times> string list"
  where
  "sanitize parse str (PStr s) replies = Inr (PStr s, replies)"
| "sanitize parse str (PFloat r) replies = Inr (PFloat r, replies)"
| "sanitize parse str (PInt i) replies = Inr (PInt i, replies)"
| "sanitize parse str (PList xs) replies = Inr (PList xs, replies)"
| "sanitize parse str (PArray dt es) replies =
     (if dt \<in> set [Dfloat, Dint, Dcomplex, Duint] then Inr (PArray dt es, replies)
      else case to_float parse es of
             Inr es' \<Rightarrow> Inr (PArray Dfloat es', replies)
           | Inl e \<Rightarrow>
               if e = ValueError
               then (case str (PArray dt es) of
                       None \<Rightarrow> Inl TypeError
                     | Some s \<Rightarrow> Inr (PStr s, replies))
               else Inl e)"
| "sanitize parse str (PDict kvs) replies =
     (case sanitize_items parse str kvs [] replies of
        Inl e \<Rightarrow> Inl e
      | Inr (cleandata, replies') \<Rightarrow> Inr (PDict cleandata, replies'))"
| "sanitize parse str (POther n) replies =
     (case str (POther n) of
        Some s \<Rightarrow> Inr (PStr s, replies)
      | None \<Rightarrow>
         (case replies of
            [] \<Rightarrow> Inl EOFError
          | shouldcontinue # rest \<Rightarrow>
             if shouldcontinue \<noteq> ''y''
             then Inl (Exception ''TypeError: could not convert to h5'')
             else Inr (PStr ''unconvertable'', rest)))"
| "sanitize_items parse str [] cleandata replies = Inr (cleandata, replies)"
| "sanitize_items parse str ((key, v) # kvs) cleandata replies =
     (case sanitize parse str v replies of
        Inl e \<Rightarrow> Inl e
      | Inr (v', replies') \<Rightarrow>
          sanitize_items parse str kvs (dict_set cleandata key v') replies')"

text \<open>A value is clean when \<open>sanitize\<close> returns it as it is and reads no reply.\<close>

definition clean :: "(string \<Rightarrow> rat option) \<Rightarrow> (py \<Rightarrow> string option) \<Rightarrow> py \<Rightarrow> bool" where
  "clean parse str v \<longleftrightarrow> (\<forall>replies. sanitize parse str v replies = Inr (v, replies))"

text \<open>Concrete inputs: a parser that accepts no string, a \<open>str\<close> that always answers, and
  a nested dict holding a \<open>float32\<close> array, another object and an array of strings.\<close>

definition parse_none :: "string \<Rightarrow> rat option" where
  "parse_none s = None"

definition str_object :: "py \<Rightarrow> string option" where
  "str_object v = Some ''object''"

definition raw_dict :: py where
  "raw_dict = PDict [(''a'', PArray (Dother ''float32'') [ENum 1]), (''b'', POther 0),
     (''c'', PDict [(''d'', PArray (Dother ''U'') [EStr ''xx''])])]"

definition clean_dict0 :: py where
  "clean_dict0 = PDict [(''a'', PArray Dfloat [ENum 1]), (''b'', PStr ''object''),
     (''c'', PDict [(''d'', PStr ''object'')])]"

section \<open>Properties of the SQUID array tuning\<close>

lemma adjust_calls_append:
  "adjust_calls a (h @ h') = adjust_calls a h @ adjust_calls a h'"
  by (induction a h rule: adjust_calls.induct) auto

lemma errors_append: "errors a (h @ h') = errors a h @ errors a h'"
  by (induction a h rule: errors.induct) auto

lemma history_adjust: "history (adjust self a e s) = history s @ [Adjusted a e]"
  by (simp add: adjust_def Let_def)

lemma history_measured: "history (measured a e s) = history s @ [Measured a e]"
  by (simp add: measured_def)

lemma history_monitor: "history (snd (monitor D s)) = history s"
  by (simp add: monitor_def)

lemma history_acquire: "history (snd (acquire D s)) = history s"
  by (simp add: acquire_def)

lemma history_setup: "history (tune_squid_setup self s) = history s"
  by (simp add: tune_squid_setup_def)

lemma mean_trace_const: "0 < n \<Longrightarrow> mean (trace n (\<lambda>i. c)) = c"
  by (simp add: mean_def trace_def sum_list_triv)

lemma mean_stuck:
  "0 < n \<Longrightarrow> mean (trace n (stuck_daq sa t)) = (if locked sa = ''Squid'' then 1 else 0)"
  by (simp add: stuck_daq_def mean_trace_const)

lemma mean_quiet: "0 < n \<Longrightarrow> mean (trace n (quiet_daq sa t)) = 0"
  by (simp add: quiet_daq_def mean_trace_const)

subsection \<open>The retry loops, by induction on the number of attempts\<close>

lemma lock_squid_nat:
  "\<exists>b s' h. lock_squid D self (int k) s = Some (b, s') \<and> history s' = history s @ h \<and>
     lock_shape self k b h"
proof (induction k arbitrary: s)
  case 0
  show ?case
    by (subst lock_squid.simps)
       (auto simp: Let_def history_measured history_monitor lock_shape_def)
next
  case (Suc k)
  define s1 where
    "s1 = s\<lparr>squidarray := reset ((lock ''Squid'' (squidarray s))\<lparr>testSignal := ''Off''\<rparr>)\<rparr>"
  define err where "err = mean (fst (monitor D s1)) - sflux_offset self"
  define s2 where "s2 = measured Attr_S_flux err (snd (monitor D s1))"
  have h2: "history s2 = history s @ [Measured Attr_S_flux err]"
    by (simp add: s2_def s1_def history_measured history_monitor)
  have unf: "lock_squid D self (int (Suc k)) s =
      (if \<bar>err\<bar> < squid_tol self then Some (True, s2)
       else lock_squid D self (int k) (adjust self Attr_S_flux err s2))"
    by (subst lock_squid.simps) (simp add: Let_def s1_def err_def s2_def)
  show ?case
  proof (cases "\<bar>err\<bar> < squid_tol self")
    case True
    then show ?thesis using unf h2 by (auto simp: lock_shape_def)
  next
    case False
    from Suc.IH[of "adjust self Attr_S_flux err s2"]
    obtain b s' h
      where r: "lock_squid D self (int k) (adjust self Attr_S_flux err s2) = Some (b, s')"
        and h: "history s' = history (adjust self Attr_S_flux err s2) @ h"
        and sh: "lock_shape self k b h" by blast
    have "history s' = history s @ ([Measured Attr_S_flux err, Adjusted Attr_S_flux err] @ h)"
      using h h2 by (simp add: history_adjust)
    moreover have
      "lock_shape self (Suc k) b ([Measured Attr_S_flux err, Adjusted Attr_S_flux err] @ h)"
      using sh False by (auto simp: lock_shape_def butlast_append)
    ultimately show ?thesis using unf False r by auto
  qed
qed

lemma tune_squid_step:
  assumes "err = mean (fst (acquire D (tune_squid_setup self s))) - aflux_offset self"
    and "s2 = measured Attr_A_flux err (snd (acquire D (tune_squid_setup self s)))"
  shows "history s2 = history s @ [Measured Attr_A_flux err]"
    and "tune_squid D self (int 0) s =
      (if \<bar>err\<bar> < aflux_tol self then lock_squid D self 5 s2 else Some (False, s2))"
    and "tune_squid D self (int (Suc k)) s =
      (if \<bar>err\<bar> < aflux_tol self then lock_squid D self 5 s2
       else tune_squid D self (int k) (adjust self Attr_A_flux err s2))"
proof -
  show "history s2 = history s @ [Measured Attr_A_flux err]"
    by (simp add: assms history_measured history_acquire history_setup)
  show "tune_squid D self (int 0) s =
      (if \<bar>err\<bar> < aflux_tol self then lock_squid D self 5 s2 else Some (False, s2))"
    by (subst tune_squid.simps) (simp add: Let_def assms)
  show "tune_squid D self (int (Suc k)) s =
      (if \<bar>err\<bar> < aflux_tol self then lock_squid D self 5 s2
       else tune_squid D self (int k) (adjust self Attr_A_flux err s2))"
    by (subst tune_squid.simps) (simp add: Let_def assms)
qed

lemma tune_squid_locks:
  assumes h2: "history s2 = history s @ [Measured Attr_A_flux err]"
    and tol: "\<bar>err\<bar> < aflux_tol self"
  shows "\<exists>b s' h. lock_squid D self 5 s2 = Some (b, s') \<and> history s' = history s @ h \<and>
     tune_shape self k b h"
proof -
  from lock_squid_nat[of D self 5 s2]
  obtain b s' h where r: "lock_squid D self 5 s2 = Some (b, s')"
    and h: "history s' = history s2 @ h" and sh: "lock_shape self 5 b h" by auto
  have "history s' = history s @ ([Measured Attr_A_flux err] @ h)" using h h2 by simp
  moreover have "tune_shape self k b ([Measured Attr_A_flux err] @ h)"
    using sh tol by (auto simp: lock_shape_def tune_shape_def)
  ultimately show ?thesis using r by blast
qed

lemma tune_squid_nat:
  "\<exists>b s' h. tune_squid D self (int k) s = Some (b, s') \<and> history s' = history s @ h \<and>
     tune_shape self k b h"
proof (induction k arbitrary: s)
  case 0
  define err where
    "err = mean (fst (acquire D (tune_squid_setup self s))) - aflux_offset self"
  define s2 where
    "s2 = measured Attr_A_flux err (snd (acquire D (tune_squid_setup self s)))"
  note st = tune_squid_step[OF err_def s2_def]
  show ?case
  proof (cases "\<bar>err\<bar> < aflux_tol self")
    case True
    then show ?thesis using tune_squid_locks[OF st(1) True, of D 0] st(2) by simp
  next
    case False
    then show ?thesis using st(1,2) by (auto simp: tune_shape_def)
  qed
next
  case (Suc k)
  define err where
    "err = mean (fst (acquire D (tune_squid_setup self s))) - aflux_offset self"
  define s2 where
    "s2 = measured Attr_A_flux err (snd (acquire D (tune_squid_setup self s)))"
  note st = tune_squid_step[OF err_def s2_def]
  show ?case
  proof (cases "\<bar>err\<bar> < aflux_tol self")
    case True
    then show ?thesis using tune_squid_locks[OF st(1) True, of D "Suc k"] st(3)[of k] by simp
  next
    case False
    from Suc.IH[of "adjust self Attr_A_flux err s2"]
    obtain b s' h
      where r: "tune_squid D self (int k) (adjust self Attr_A_flux err s2) = Some (b, s')"
        and h: "history s' = history (adjust self Attr_A_flux err s2) @ h"
        and sh: "tune_shape self k b h" by blast
    have "history s' = history s @ ([Measured Attr_A_flux err, Adjusted Attr_A_flux err] @ h)"
      using h st(1) by (simp add: history_adjust)
    moreover have
      "tune_shape self (Suc k) b ([Measured Attr_A_flux err, Adjusted Attr_A_flux err] @ h)"
      using sh False by (auto simp: tune_shape_def butlast_append split: if_splits)
    ultimately show ?thesis using st(3)[of k] False r by auto
  qed
qed

subsection \<open>Claim C1\<close>

text \<open>
  Claim C1 as stated, at most \<open>n\<close> calls of \<open>adjust\<close> in \<open>tune_squid(attempts=n)\<close>, fails:
  with no attempt allowed, an array flux in tolerance and a SQUID flux that never comes
  into tolerance, \<open>tune_squid(attempts=0)\<close> calls \<open>adjust\<close> five times, in the run of
  \<open>lock_squid\<close> that it starts with the default number of attempts.
\<close>

theorem tune_squid_zero_attempts_adjusts_five_times:
  "summary (tune_squid stuck_daq (ArrayTune_default 0) 0 lab0) =
     Some (False, [Measured Attr_A_flux 0,
       Measured Attr_S_flux 1, Adjusted Attr_S_flux 1,
       Measured Attr_S_flux 1, Adjusted Attr_S_flux 1,
       Measured Attr_S_flux 1, Adjusted Attr_S_flux 1,
       Measured Attr_S_flux 1, Adjusted Attr_S_flux 1,
       Measured Attr_S_flux 1, Adjusted Attr_S_flux 1,
       Measured Attr_S_flux 1])"
  by (simp add: summary_def tune_squid.simps lock_squid.simps Let_def acquire_def
      monitor_def mean_stuck tune_squid_setup_def lock_def reset_def measured_def
      adjust_def ArrayTune_default_def ArrayTune_def lab0_def squidarray0_def)

text \<open>
  Claim C1, amended: for every number of attempts \<open>n \<ge> 0\<close> both procedures return a
  boolean; \<open>lock_squid(attempts=n)\<close> calls \<open>adjust\<close> at most \<open>n\<close> times, on the SQUID flux
  only; \<open>tune_squid(attempts=n)\<close> calls \<open>adjust\<close> at most \<open>n\<close> times on the array flux and,
  in the run of \<open>lock_squid\<close> that follows, at most 5 times on the SQUID flux.
\<close>

theorem bounded_adjustments:
  assumes "0 \<le> n"
  shows "(\<exists>b s' h. lock_squid D self n s = Some (b, s') \<and> history s' = history s @ h \<and>
            adjust_calls Attr_A_flux h = [] \<and> length (adjust_calls Attr_S_flux h) \<le> nat n) \<and>
         (\<exists>b s' h. tune_squid D self n s = Some (b, s') \<and> history s' = history s @ h \<and>
            length (adjust_calls Attr_A_flux h) \<le> nat n \<and>
            length (adjust_calls Attr_S_flux h) \<le> 5)"
proof
  from lock_squid_nat[of D self "nat n" s] assms
  obtain b s' h where "lock_squid D self n s = Some (b, s')" "history s' = history s @ h"
    "lock_shape self (nat n) b h" by auto
  then show "\<exists>b s' h. lock_squid D self n s = Some (b, s') \<and> history s' = history s @ h \<and>
            adjust_calls Attr_A_flux h = [] \<and> length (adjust_calls Attr_S_flux h) \<le> nat n"
    by (auto simp: lock_shape_def)
next
  from tune_squid_nat[of D self "nat n" s] assms
  obtain b s' h where "tune_squid D self n s = Some (b, s')" "history s' = history s @ h"
    "tune_shape self (nat n) b h" by auto
  then show "\<exists>b s' h. tune_squid D self n s = Some (b, s') \<and> history s' = history s @ h \<and>
            length (adjust_calls Attr_A_flux h) \<le> nat n \<and>
            length (adjust_calls Attr_S_flux h) \<le> 5"
    by (auto simp: tune_shape_def split: if_splits)
qed

theorem bounded_adjustments_witness:
  "(0::int) \<le> 5 \<and>
   (\<exists>b s' h. lock_squid stuck_daq (ArrayTune_default 0) 5 lab0 = Some (b, s') \<and>
      history s' = history lab0 @ h \<and>
      adjust_calls Attr_A_flux h = [] \<and> length (adjust_calls Attr_S_flux h) \<le> nat 5) \<and>
   (\<exists>b s' h. tune_squid stuck_daq (ArrayTune_default 0) 5 lab0 = Some (b, s') \<and>
      history s' = history lab0 @ h \<and>
      length (adjust_calls Attr_A_flux h) \<le> nat 5 \<and>
      length (adjust_calls Attr_S_flux h) \<le> 5)"
  using bounded_adjustments[of 5 stuck_daq "ArrayTune_default 0" lab0] by simp

subsection \<open>Claim C2\<close>

text \<open>The two procedures in terms of one pass: the test of the error measured on the
  DAQ, the verdict when no attempt is left, and the call with one attempt less.\<close>

lemma lock_squid_unfold:
  "lock_squid D self attempts s =
     (if \<bar>squid_error D self s\<bar> < squid_tol self then Some (True, lock_measured D self s)
      else if attempts = 0 then Some (False, lock_measured D self s)
      else lock_squid D self (attempts - 1) (lock_retry D self s))"
  by (subst lock_squid.simps)
     (simp add: Let_def squid_error_def lock_measured_def lock_retry_def lock_setup_def)

lemma tune_squid_unfold:
  "tune_squid D self attempts s =
     (if \<bar>array_error D self s\<bar> < aflux_tol self
      then lock_squid D self 5 (tune_measured D self s)
      else if attempts = 0 then Some (False, tune_measured D self s)
      else tune_squid D self (attempts - 1) (tune_retry D self s))"
  by (subst tune_squid.simps)
     (simp add: Let_def array_error_def tune_measured_def tune_retry_def)

lemma lock_squid_verdict_nat:
  "\<exists>b s'. lock_squid D self (int k) s = Some (b, s') \<and>
     (b \<longleftrightarrow> (\<exists>j \<le> k. \<bar>squid_error D self ((lock_retry D self ^^ j) s)\<bar> < squid_tol self))"
proof (induction k arbitrary: s)
  case 0
  show ?case by (subst lock_squid_unfold) auto
next
  case (Suc k)
  show ?case
  proof (cases "\<bar>squid_error D self s\<bar> < squid_tol self")
    case True
    have "\<exists>j \<le> Suc k. \<bar>squid_error D self ((lock_retry D self ^^ j) s)\<bar> < squid_tol self"
      using True by (intro exI[of _ 0]) simp
    then show ?thesis using True by (subst lock_squid_unfold) auto
  next
    case False
    from Suc.IH[of "lock_retry D self s"] obtain b s'
      where r: "lock_squid D self (int k) (lock_retry D self s) = Some (b, s')"
        and b: "b \<longleftrightarrow> (\<exists>j \<le> k. \<bar>squid_error D self
                 ((lock_retry D self ^^ j) (lock_retry D self s))\<bar> < squid_tol self)"
      by blast
    have sh: "(\<exists>j \<le> k. \<bar>squid_error D self
                 ((lock_retry D self ^^ j) (lock_retry D self s))\<bar> < squid_tol self) \<longleftrightarrow>
          (\<exists>j \<le> Suc k. \<bar>squid_error D self ((lock_retry D self ^^ j) s)\<bar> < squid_tol self)"
      (is "?L \<longleftrightarrow> ?R")
    proof
      assume ?L
      then obtain j where "j \<le> k"
        "\<bar>squid_error D self ((lock_retry D self ^^ j) (lock_retry D self s))\<bar> < squid_tol self"
        by blast
      then show ?R by (intro exI[of _ "Suc j"]) (simp add: funpow_swap1)
    next
      assume ?R
      then obtain j where j: "j \<le> Suc k"
        "\<bar>squid_error D self ((lock_retry D self ^^ j) s)\<bar> < squid_tol self" by blast
      then obtain j' where "j = Suc j'" using False by (cases j) auto
      then show ?L using j by (intro exI[of _ j']) (simp add: funpow_swap1)
    qed
    have "lock_squid D self (int (Suc k)) s = Some (b, s')"
      using False r by (subst lock_squid_unfold) simp
    then show ?thesis using b sh by blast
  qed
qed

lemma tune_squid_verdict_nat:
  "\<exists>b s'. tune_squid D self (int n) s = Some (b, s') \<and>
     (b \<longleftrightarrow> (\<exists>k \<le> n. (\<forall>i < k. \<not> array_ok D self s i) \<and> array_ok D self s k \<and>
                 (\<exists>j \<le> 5. squid_ok D self s k j)))"
proof (induction n arbitrary: s)
  case 0
  show ?case
  proof (cases "\<bar>array_error D self s\<bar> < aflux_tol self")
    case True
    from lock_squid_verdict_nat[of D self 5 "tune_measured D self s"] obtain b s'
      where r: "lock_squid D self 5 (tune_measured D self s) = Some (b, s')"
        and b: "b \<longleftrightarrow> (\<exists>j \<le> 5. squid_ok D self s 0 j)"
      by (auto simp: squid_ok_def)
    have "tune_squid D self (int 0) s = Some (b, s')"
      using True r by (subst tune_squid_unfold) simp
    then show ?thesis using b True by (auto simp: array_ok_def)
  next
    case False
    then show ?thesis by (subst tune_squid_unfold) (auto simp: array_ok_def)
  qed
next
  case (Suc n)
  show ?case
  proof (cases "\<bar>array_error D self s\<bar> < aflux_tol self")
    case True
    from lock_squid_verdict_nat[of D self 5 "tune_measured D self s"] obtain b s'
      where r: "lock_squid D self 5 (tune_measured D self s) = Some (b, s')"
        and b: "b \<longleftrightarrow> (\<exists>j \<le> 5. squid_ok D self s 0 j)"
      by (auto simp: squid_ok_def)
    have t: "tune_squid D self (int (Suc n)) s = Some (b, s')"
      using True r by (subst tune_squid_unfold) simp
    have a0: "array_ok D self s 0" using True by (simp add: array_ok_def)
    have "(\<exists>k \<le> Suc n. (\<forall>i < k. \<not> array_ok D self s i) \<and> array_ok D self s k \<and>
                 (\<exists>j \<le> 5. squid_ok D self s k j)) \<longleftrightarrow> (\<exists>j \<le> 5. squid_ok D self s 0 j)"
    proof
      assume "\<exists>k \<le> Suc n. (\<forall>i < k. \<not> array_ok D self s i) \<and> array_ok D self s k \<and>
                 (\<exists>j \<le> 5. squid_ok D self s k j)"
      then obtain k where k: "\<forall>i < k. \<not> array_ok D self s i" "\<exists>j \<le> 5. squid_ok D self s k j"
        by blast
      have "k = 0" using k(1) a0 by (cases k) auto
      then show "\<exists>j \<le> 5. squid_ok D self s 0 j" using k(2) by simp
    next
      assume "\<exists>j \<le> 5. squid_ok D self s 0 j"
      then show "\<exists>k \<le> Suc n. (\<forall>i < k. \<not> array_ok D self s i) \<and> array_ok D self s k \<and>
                 (\<exists>j \<le> 5. squid_ok D self s k j)"
        using a0 by (intro exI[of _ 0]) simp
    qed
    then show ?thesis using t b by blast
  next
    case False
    define s1 where "s1 = tune_retry D self s"
    have sh_a: "\<And>i. array_ok D self s1 i = array_ok D self s (Suc i)"
      by (simp add: array_ok_def s1_def funpow_swap1)
    have sh_s: "\<And>i j. squid_ok D self s1 i j = squid_ok D self s (Suc i) j"
      by (simp add: squid_ok_def s1_def funpow_swap1)
    have n0: "\<not> array_ok D self s 0" using False by (simp add: array_ok_def)
    from Suc.IH[of s1] obtain b s'
      where r: "tune_squid D self (int n) s1 = Some (b, s')"
        and b: "b \<longleftrightarrow> (\<exists>k \<le> n. (\<forall>i < k. \<not> array_ok D self s1 i) \<and> array_ok D self s1 k \<and>
                 (\<exists>j \<le> 5. squid_ok D self s1 k j))"
      by blast
    have t: "tune_squid D self (int (Suc n)) s = Some (b, s')"
      using False r by (subst tune_squid_unfold) (simp add: s1_def)
    have "(\<exists>k \<le> n. (\<forall>i < k. \<not> array_ok D self s1 i) \<and> array_ok D self s1 k \<and>
                 (\<exists>j \<le> 5. squid_ok D self s1 k j)) \<longleftrightarrow>
          (\<exists>k \<le> Suc n. (\<forall>i < k. \<not> array_ok D self s i) \<and> array_ok D self s k \<and>
                 (\<exists>j \<le> 5. squid_ok D self s k j))" (is "?L \<longleftrightarrow> ?R")
    proof
      assume ?L
      then obtain k where k: "k \<le> n" "\<forall>i < k. \<not> array_ok D self s (Suc i)"
        "array_ok D self s (Suc k)" "\<exists>j \<le> 5. squid_ok D self s (Suc k) j"
        unfolding sh_a sh_s by blast
      have "\<forall>i < Suc k. \<not> array_ok D self s i"
      proof (intro allI impI)
        fix i assume "i < Suc k"
        then show "\<not> array_ok D self s i" using n0 k(2) by (cases i) auto
      qed
      then show ?R using k by (intro exI[of _ "Suc k"]) simp
    next
      assume ?R
      then obtain k where k: "k \<le> Suc n" "\<forall>i < k. \<not> array_ok D self s i"
        "array_ok D self s k" "\<exists>j \<le> 5. squid_ok D self s k j" by blast
      then obtain k' where k': "k = Suc k'" using n0 by (cases k) auto
      have "\<forall>i < k'. \<not> array_ok D self s (Suc i)" using k(2) k' by auto
      then show ?L unfolding sh_a sh_s using k k' by (intro exI[of _ k']) simp
    qed
    then show ?thesis using t b by blast
  qed
qed

text \<open>
  Claim C2: for \<open>n \<ge> 0\<close>, \<open>tune_squid(attempts=n)\<close> returns True exactly when the
  array-flux error measured on the DAQ, \<open>|mean(saa) - aflux_offset|\<close>, comes below
  \<open>aflux_tol\<close> after some \<open>k \<le> n\<close> adjustments, for the first time, and the
  \<open>lock_squid\<close> started then finds the SQUID-flux error \<open>|mean(saa) - sflux_offset|\<close>
  below \<open>squid_tol\<close> after some \<open>j \<le> 5\<close> adjustments of its own. In particular it
  returns False when the array-flux error is never within tolerance in the \<open>n + 1\<close>
  measurements, and when the SQUID-flux error is never within tolerance in the six
  measurements of \<open>lock_squid\<close>.
\<close>

theorem tune_squid_verdict:
  assumes "0 \<le> n"
  shows "\<exists>b s'. tune_squid D self n s = Some (b, s') \<and>
           (b \<longleftrightarrow> (\<exists>k \<le> nat n. (\<forall>i < k. \<not> array_ok D self s i) \<and> array_ok D self s k \<and>
                       (\<exists>j \<le> 5. squid_ok D self s k j))) \<and>
           ((\<forall>k \<le> nat n. \<not> array_ok D self s k) \<longrightarrow> \<not> b) \<and>
           ((\<forall>k \<le> nat n. \<forall>j \<le> 5. \<not> squid_ok D self s k j) \<longrightarrow> \<not> b)"
proof -
  from tune_squid_verdict_nat[of D self "nat n" s] assms
  obtain b s' where r: "tune_squid D self n s = Some (b, s')"
    and b: "b \<longleftrightarrow> (\<exists>k \<le> nat n. (\<forall>i < k. \<not> array_ok D self s i) \<and> array_ok D self s k \<and>
                       (\<exists>j \<le> 5. squid_ok D self s k j))"
    by auto
  have "(\<forall>k \<le> nat n. \<not> array_ok D self s k) \<longrightarrow> \<not> b" using b by blast
  moreover have "(\<forall>k \<le> nat n. \<forall>j \<le> 5. \<not> squid_ok D self s k j) \<longrightarrow> \<not> b" using b by blast
  ultimately show ?thesis using r b by blast
qed

text \<open>With a DAQ that reads 0 V both errors are within tolerance at the first
  measurement, and \<open>tune_squid\<close> with the default five attempts returns True.\<close>

theorem tune_squid_verdict_witness:
  "(0::int) \<le> 5 \<and>
   array_ok quiet_daq (ArrayTune_default 0) lab0 0 \<and>
   squid_ok quiet_daq (ArrayTune_default 0) lab0 0 0 \<and>
   summary (tune_squid quiet_daq (ArrayTune_default 0) 5 lab0) =
     Some (True, [Measured Attr_A_flux 0, Measured Attr_S_flux 0]) \<and>
   (\<exists>b s'. tune_squid quiet_daq (ArrayTune_default 0) 5 lab0 = Some (b, s') \<and>
      (b \<longleftrightarrow> (\<exists>k \<le> nat 5. (\<forall>i < k. \<not> array_ok quiet_daq (ArrayTune_default 0) lab0 i) \<and>
                  array_ok quiet_daq (ArrayTune_default 0) lab0 k \<and>
                  (\<exists>j \<le> 5. squid_ok quiet_daq (ArrayTune_default 0) lab0 k j))) \<and>
      ((\<forall>k \<le> nat 5. \<not> array_ok quiet_daq (ArrayTune_default 0) lab0 k) \<longrightarrow> \<not> b) \<and>
      ((\<forall>k \<le> nat 5. \<forall>j \<le> 5. \<not> squid_ok quiet_daq (ArrayTune_default 0) lab0 k j) \<longrightarrow> \<not> b))"
proof (intro conjI)
  show h: "(0::int) \<le> 5" by simp
  show "array_ok quiet_daq (ArrayTune_default 0) lab0 0"
    by (simp add: array_ok_def array_error_def acquire_def mean_quiet
        ArrayTune_default_def ArrayTune_def)
  show "squid_ok quiet_daq (ArrayTune_default 0) lab0 0 0"
    by (simp add: squid_ok_def squid_error_def monitor_def mean_quiet
        ArrayTune_default_def ArrayTune_def)
  show "summary (tune_squid quiet_daq (ArrayTune_default 0) 5 lab0) =
     Some (True, [Measured Attr_A_flux 0, Measured Attr_S_flux 0])"
    by (simp add: summary_def tune_squid.simps lock_squid.simps Let_def acquire_def
        monitor_def mean_quiet tune_squid_setup_def lock_def reset_def measured_def
        ArrayTune_default_def ArrayTune_def lab0_def squidarray0_def)
  show "\<exists>b s'. tune_squid quiet_daq (ArrayTune_default 0) 5 lab0 = Some (b, s') \<and>
      (b \<longleftrightarrow> (\<exists>k \<le> nat 5. (\<forall>i < k. \<not> array_ok quiet_daq (ArrayTune_default 0) lab0 i) \<and>
                  array_ok quiet_daq (ArrayTune_default 0) lab0 k \<and>
                  (\<exists>j \<le> 5. squid_ok quiet_daq (ArrayTune_default 0) lab0 k j))) \<and>
      ((\<forall>k \<le> nat 5. \<not> array_ok quiet_daq (ArrayTune_default 0) lab0 k) \<longrightarrow> \<not> b) \<and>
      ((\<forall>k \<le> nat 5. \<forall>j \<le> 5. \<not> squid_ok quiet_daq (ArrayTune_default 0) lab0 k j) \<longrightarrow> \<not> b)"
    by (rule tune_squid_verdict[OF h])
qed

subsection \<open>Claim C3\<close>

text \<open>
  Claim C3 as stated, the attribute is always set to \<open>v + 10 * e\<close>, fails: from the value
  0 and with the error -1 the array flux is set to 50, not to -10.
\<close>

theorem adjust_below_zero_jumps:
  "getattr (squidarray lab0) Attr_A_flux = 0 \<and>
   getattr (squidarray (adjust (ArrayTune_default 0) Attr_A_flux (- 1) lab0)) Attr_A_flux = 50"
  by (simp add: adjust_def Let_def ArrayTune_default_def ArrayTune_def lab0_def
      squidarray0_def reset_def)

text \<open>
  Claim C3, amended: the conversion factor is 10, and \<open>adjust(attr, e)\<close> with the current
  value \<open>v\<close> sets the attribute to \<open>v + 50\<close> when \<open>v + 10 * e < 0\<close>, to 0 when
  \<open>v + 10 * e > 150\<close> and to \<open>v + 10 * e\<close> otherwise; it then resets the SQUID array once.
\<close>

theorem adjust_correction:
  "conversion (ArrayTune bias stol atol soff aoff) = 10 \<and>
   getattr (squidarray (adjust (ArrayTune bias stol atol soff aoff) a e s)) a =
     (if getattr (squidarray s) a + 10 * e < 0 then getattr (squidarray s) a + 50
      else if getattr (squidarray s) a + 10 * e > 150 then 0
      else getattr (squidarray s) a + 10 * e) \<and>
   resets (squidarray (adjust (ArrayTune bias stol atol soff aoff) a e s)) =
     Suc (resets (squidarray s))"
  by (cases a) (simp_all add: adjust_def Let_def ArrayTune_def reset_def mult.commute)

theorem adjust_correction_witness:
  "getattr (squidarray (adjust (ArrayTune 0 (1/10) (1/100) 0 0) Attr_S_flux 2 lab0))
     Attr_S_flux = 20 \<and>
   getattr (squidarray (adjust (ArrayTune 0 (1/10) (1/100) 0 0) Attr_S_flux 16 lab0))
     Attr_S_flux = 0 \<and>
   getattr (squidarray (adjust (ArrayTune 0 (1/10) (1/100) 0 0) Attr_S_flux (- 2) lab0))
     Attr_S_flux = 50"
  using adjust_correction[of 0 "1/10" "1/100" 0 0 Attr_S_flux 2 lab0]
    adjust_correction[of 0 "1/10" "1/100" 0 0 Attr_S_flux 16 lab0]
    adjust_correction[of 0 "1/10" "1/100" 0 0 Attr_S_flux "- 2" lab0]
  by (simp add: lab0_def squidarray0_def)

section \<open>Properties of the DAQ driver\<close>

subsection \<open>Claim C8\<close>

lemma linspace_length:
  "0 \<le> num \<Longrightarrow> \<exists>xs. linspace a b num = Inr xs \<and> length xs = nat num"
  by (simp add: linspace_def)

lemma linspace_hd:
  "1 \<le> num \<Longrightarrow> linspace a b num = Inr xs \<Longrightarrow> hd xs = a"
  by (auto simp: linspace_def hd_map upt_conv_Cons split: if_splits)

lemma linspace_last:
  assumes "2 \<le> num" and "linspace a b num = Inr xs"
  shows "last xs = b"
proof -
  have ne: "[0..<nat num] \<noteq> []" using assms(1) by simp
  have l: "last [0..<nat num] = nat num - 1" using assms(1) by (simp add: last_upt)
  have r: "(of_nat (nat num - 1) :: rat) = of_int (num - 1)"
    using assms(1) by (simp add: of_nat_diff)
  have "xs = map (\<lambda>i. a + of_nat i * ((b - a) / of_int (num - 1))) [0..<nat num]"
    using assms by (auto simp: linspace_def split: if_splits)
  then have "last xs = a + of_nat (nat num - 1) * ((b - a) / of_int (num - 1))"
    using ne l by (simp add: last_map)
  also have "\<dots> = a + of_int (num - 1) * ((b - a) / of_int (num - 1))"
    by (simp only: r)
  also have "\<dots> = b" using assms(1) by simp
  finally show ?thesis .
qed

lemma list_times_single: "list_times (list_times [x] n) 2 = replicate (nat (2 * n)) x"
proof -
  have "list_times [x] n = replicate (nat n) x"
    by (simp add: list_times_def)
  moreover have "nat (2 * n) = nat n + nat n" by (cases "0 \<le> n") auto
  ultimately show ?thesis
    by (simp add: list_times_def numeral_2_eq_2 replicate_add)
qed

text \<open>
  Claim C8 as stated fails for \<open>numpts = 1\<close>: \<open>accel_function(0, 1, 1)\<close> is the list
  \<open>[0]\<close>, of length \<open>2 * 1 - 1\<close>, whose last element is \<open>start\<close>, not \<open>end\<close>.
\<close>

theorem accel_function_one_point: "accel_function 0 1 1 = Inr [0]"
  by (simp add: accel_function_def linspace_def)

text \<open>
  Claim C8, amended: when \<open>start = end\<close> and \<open>numpts \<ge> 0\<close>, \<open>accel_function\<close> returns the
  list of \<open>2 * numpts\<close> elements all equal to \<open>start\<close>; when \<open>start \<noteq> end\<close> and
  \<open>numpts \<ge> 1\<close> it returns a list of length \<open>2 * numpts - 1\<close> whose first element is
  \<open>start\<close>, and whose last element is \<open>end\<close> when \<open>numpts \<ge> 2\<close>.
\<close>

theorem accel_function_shape:
  "(start = endv \<and> 0 \<le> numpts \<longrightarrow>
      (\<exists>xs. accel_function start endv numpts = Inr xs \<and> int (length xs) = 2 * numpts \<and>
            xs = replicate (length xs) start)) \<and>
   (start \<noteq> endv \<and> 1 \<le> numpts \<longrightarrow>
      (\<exists>xs. accel_function start endv numpts = Inr xs \<and> int (length xs) = 2 * numpts - 1 \<and>
            hd xs = start \<and> (2 \<le> numpts \<longrightarrow> last xs = endv)))"
proof (intro conjI impI)
  assume "start = endv \<and> 0 \<le> numpts"
  then show "\<exists>xs. accel_function start endv numpts = Inr xs \<and> int (length xs) = 2 * numpts \<and>
            xs = replicate (length xs) start"
    by (simp add: accel_function_def list_times_single)
next
  assume a: "start \<noteq> endv \<and> 1 \<le> numpts"
  define mid where "mid = (endv - start) / 2 + start"
  from a linspace_length[of numpts start mid]
  obtain p1 where p1: "linspace start mid numpts = Inr p1" "length p1 = nat numpts" by auto
  from a linspace_length[of numpts mid endv]
  obtain p2 where p2: "linspace mid endv numpts = Inr p2" "length p2 = nat numpts" by auto
  define f1 where
    "f1 = (\<lambda>x. start + (x - start)\<^sup>2 / ((endv - start) / 2)\<^sup>2 * (endv - start) / 2)"
  define f2 where
    "f2 = (\<lambda>x. endv - (x - endv)\<^sup>2 / ((endv - start) / 2)\<^sup>2 * (endv - start) / 2)"
  have res: "accel_function start endv numpts = Inr (map f1 p1 @ drop 1 (map f2 p2))"
    using a p1(1) p2(1) by (simp add: accel_function_def mid_def f1_def f2_def Let_def)
  have ne1: "p1 \<noteq> []" using a p1(2) by auto
  have len: "int (length (map f1 p1 @ drop 1 (map f2 p2))) = 2 * numpts - 1"
    using a p1(2) p2(2) by auto
  have "hd p1 = start" using linspace_hd[OF _ p1(1)] a by simp
  then have first: "hd (map f1 p1 @ drop 1 (map f2 p2)) = start"
    using ne1 by (simp add: hd_map f1_def)
  have lst: "last (map f1 p1 @ drop 1 (map f2 p2)) = endv" if "2 \<le> numpts"
  proof -
    have ne2: "drop 1 (map f2 p2) \<noteq> []" using that p2(2) by auto
    have "last p2 = endv" using linspace_last[OF that p2(1)] .
    moreover have "p2 \<noteq> []" using that p2(2) by auto
    ultimately have "last (map f2 p2) = endv" by (simp add: last_map f2_def)
    moreover have "last (drop 1 (map f2 p2)) = last (map f2 p2)"
      using that p2(2) by (simp add: last_drop)
    ultimately show ?thesis using ne2 by simp
  qed
  show "\<exists>xs. accel_function start endv numpts = Inr xs \<and> int (length xs) = 2 * numpts - 1 \<and>
            hd xs = start \<and> (2 \<le> numpts \<longrightarrow> last xs = endv)"
    using res len first lst by blast
qed

theorem accel_function_shape_witness:
  "accel_function 1 1 3 = Inr [1, 1, 1, 1, 1, 1] \<and>
   accel_function 0 1 3 = Inr [0, 1 / 8, 1 / 2, 7 / 8, 1] \<and>
   (\<exists>xs. accel_function 1 1 3 = Inr xs \<and> int (length xs) = 2 * 3 \<and>
         xs = replicate (length xs) 1) \<and>
   (\<exists>xs. accel_function 0 1 3 = Inr xs \<and> int (length xs) = 2 * 3 - 1 \<and>
         hd xs = 0 \<and> last xs = 1)"
proof (intro conjI)
  show "accel_function 1 1 3 = Inr [1, 1, 1, 1, 1, 1]"
    by (simp add: accel_function_def list_times_def numeral_3_eq_3 numeral_2_eq_2)
  show "accel_function 0 1 3 = Inr [0, 1 / 8, 1 / 2, 7 / 8, 1]"
    by (simp add: accel_function_def linspace_def upt_conv_Cons power2_eq_square)
  show "\<exists>xs. accel_function 1 1 3 = Inr xs \<and> int (length xs) = 2 * 3 \<and>
         xs = replicate (length xs) 1"
    using accel_function_shape[of 1 1 3] by simp
  show "\<exists>xs. accel_function 0 1 3 = Inr xs \<and> int (length xs) = 2 * 3 - 1 \<and>
         hd xs = 0 \<and> last xs = 1"
    using accel_function_shape[of 0 1 3] by simp
qed

subsection \<open>Claim C9\<close>

lemma store_setattr_chan: "setattr_chan ch v self = Inr self' \<Longrightarrow> store self' = store self"
  by (auto simp: setattr_chan_def set_chan_def split: if_splits)

lemma hw_store_update: "hw (self\<lparr>store := h\<rparr>) = hw self"
  by simp

lemma store_run_task:
  "store (snd (run_task task_run chans data freq wd self)) = store self"
  by (simp add: run_task_def Let_def split: list.splits sum.splits option.splits)

lemma take_update_beyond: "n \<le> a \<Longrightarrow> take n (h[a := ob]) = take n h"
  by (simp add: take_update_cancel)

lemma handle_outputs_frame:
  "n \<le> data \<Longrightarrow> n \<le> length (store self) \<Longrightarrow>
   take n (store (snd (handle_outputs chs data wd self))) = take n (store self) \<and>
   n \<le> length (store (snd (handle_outputs chs data wd self)))"
proof (induction chs arbitrary: wd self)
  case Nil
  then show ?case by simp
next
  case (Cons ch chs)
  show ?case
  proof (cases "deref (store self) data")
    case None
    then show ?thesis using Cons.prems by simp
  next
    case (Some ob)
    show ?thesis
    proof (cases ob)
      case (ListObj xs)
      then show ?thesis using Some Cons.prems by simp
    next
      case (DictObj kvs)
      show ?thesis
      proof (cases "map_of kvs ch")
        case None
        then show ?thesis using Some DictObj Cons.prems by simp
      next
        case ad: (Some ad)
        show ?thesis
        proof (cases "deref (store self) ad")
          case None
          then show ?thesis using Some DictObj ad Cons.prems by simp
        next
          case ob2: (Some ob2)
          show ?thesis
          proof (cases ob2)
            case d2: (DictObj kvs2)
            then show ?thesis using Some DictObj ad ob2 Cons.prems by simp
          next
            case l2: (ListObj d)
            show ?thesis
            proof (cases d)
              case Nil
              then show ?thesis using Some DictObj ad ob2 l2 Cons.prems by simp
            next
              case dc: (Cons d0 ds)
              show ?thesis
              proof (cases "setattr_chan ch d0 self")
                case (Inl e)
                then show ?thesis using Some DictObj ad ob2 l2 dc Cons.prems by simp
              next
                case (Inr self1)
                have st: "store self1 = store self" using Inr by (rule store_setattr_chan)
                define d' where "d' = (d0 # ds) @ [(d0 # ds) ! (length (d0 # ds) - 1)]"
                define h3 where
                  "h3 = ((store self @ [ListObj (d0 # ds)]) @ [ListObj d'])
                          [data := DictObj (dict_set kvs ch (Suc (length (store self))))]"
                have unf: "handle_outputs (ch # chs) data wd self =
                    handle_outputs chs data (dict_set wd ch d') (self1\<lparr>store := h3\<rparr>)"
                  using Some DictObj ad ob2 l2 dc Inr st
                  by (simp add: alloc_def Let_def d'_def h3_def)
                have t: "take n h3 = take n (store self)"
                  using Cons.prems by (simp add: h3_def take_update_beyond)
                have l: "n \<le> length h3" using Cons.prems by (simp add: h3_def)
                from Cons.IH[of "self1\<lparr>store := h3\<rparr>" "dict_set wd ch d'"] Cons.prems(1) l
                have "take n (store (snd (handle_outputs chs data (dict_set wd ch d')
                          (self1\<lparr>store := h3\<rparr>)))) = take n h3 \<and>
                      n \<le> length (store (snd (handle_outputs chs data (dict_set wd ch d')
                          (self1\<lparr>store := h3\<rparr>))))"
                  by simp
                then show ?thesis using unf t by simp
              qed
            qed
          qed
        qed
      qed
    qed
  qed
qed

lemma send_data_frame:
  assumes "n \<le> data" and "n \<le> length (store self)"
  shows "take n (store (snd (send_data task_run chans data freq self))) = take n (store self)"
proof -
  from handle_outputs_frame[OF assms, of chans "[]"]
  have "take n (store (snd (handle_outputs chans data [] self))) = take n (store self)"
    by simp
  then show ?thesis
    by (auto simp: send_data_def store_run_task split: prod.splits sum.splits)
qed

text \<open>
  Claim C9: whatever \<open>send_receive\<close> returns or raises, every object that was in the
  store when it was called, the caller's \<open>orig_data\<close> and the lists it refers to among
  them, is unchanged afterwards: the call only allocates new objects and only updates
  objects that it allocated.
\<close>

theorem send_receive_frame:
  "take (length (store self))
     (store (snd (send_receive task_run chan_out orig_data freq self))) = store self"
proof (cases "deref (store self) orig_data")
  case None
  then show ?thesis by (simp add: send_receive_def)
next
  case (Some ob)
  define n where "n = length (store self)"
  show ?thesis
  proof (cases chan_out)
    case (Scalar c)
    define self1 where "self1 = self\<lparr>store := (store self @ [ob]) @ [DictObj [(c, n)]]\<rparr>"
    have "take n (store self1) = store self" "n \<le> length (store self1)" "n \<le> Suc n"
      by (simp_all add: self1_def n_def)
    then have "take n (store (snd (send_data task_run [c] (Suc n) freq self1))) = store self"
      by (simp add: send_data_frame)
    moreover have "send_receive task_run chan_out orig_data freq self =
        send_data task_run [c] (Suc n) freq self1"
      using Some Scalar by (simp add: send_receive_def alloc_def self1_def n_def)
    ultimately show ?thesis by (simp add: n_def)
  next
    case (Chans cs)
    define self1 where "self1 = self\<lparr>store := store self @ [ob]\<rparr>"
    have "take n (store self1) = store self" "n \<le> length (store self1)" "n \<le> n"
      by (simp_all add: self1_def n_def)
    then have "take n (store (snd (send_data task_run cs n freq self1))) = store self"
      by (simp add: send_data_frame)
    moreover have "send_receive task_run chan_out orig_data freq self =
        send_data task_run cs n freq self1"
      using Some Chans by (simp add: send_receive_def alloc_def self1_def n_def)
    ultimately show ?thesis by (simp add: n_def)
  qed
qed

text \<open>A run on a dict of one list: the final sample is duplicated in a new list, referred
  to by the new dict at address 2; the caller's list and dict are as before.\<close>

theorem send_receive_frame_witness:
  "send_receive echo (Chans [''ao0'']) 1 100 dev1 =
     (Inr ([(''ai23'', [0, 0, 0])], [0, 1, 2]),
      dev1\<lparr>ao_values := [(''ao0'', 1)],
        hw := [Write ''ao0'' 1, Run [(''ao0'', [1, 2, 3, 3])] 4 100],
        store := [ListObj [1, 2, 3], DictObj [(''ao0'', 0)], DictObj [(''ao0'', 4)],
           ListObj [1, 2, 3], ListObj [1, 2, 3, 3]]\<rparr>) \<and>
   take (length (store dev1))
     (store (snd (send_receive echo (Chans [''ao0'']) 1 100 dev1))) = store dev1"
proof
  show "send_receive echo (Chans [''ao0'']) 1 100 dev1 =
     (Inr ([(''ai23'', [0, 0, 0])], [0, 1, 2]),
      dev1\<lparr>ao_values := [(''ao0'', 1)],
        hw := [Write ''ao0'' 1, Run [(''ao0'', [1, 2, 3, 3])] 4 100],
        store := [ListObj [1, 2, 3], DictObj [(''ao0'', 0)], DictObj [(''ao0'', 4)],
           ListObj [1, 2, 3], ListObj [1, 2, 3, 3]]\<rparr>)"
    by (simp add: send_receive_def send_data_def run_task_def dev1_def dev0_def echo_def
        alloc_def deref_def setattr_chan_def set_chan_def item_len_def int_of_digits_def
        isdigit_def digit_val_def show_nat.simps Let_def upt_conv_Cons)
  show "take (length (store dev1))
     (store (snd (send_receive echo (Chans [''ao0'']) 1 100 dev1))) = store dev1"
    by (rule send_receive_frame)
qed

subsection \<open>Claim C7\<close>

lemma linspace_error: "linspace a b n = Inl e \<Longrightarrow> e = ValueError"
  by (auto simp: linspace_def split: if_splits)

lemma accel_function_total: "0 \<le> n \<Longrightarrow> \<exists>xs. accel_function s e n = Inr xs"
  using linspace_length[of n s "(e - s) / 2 + s"] linspace_length[of n "(e - s) / 2 + s" e]
  by (auto simp: accel_function_def Let_def)

lemma accel_function_error: "accel_function s e n = Inl err \<Longrightarrow> err = ValueError"
  by (auto simp: accel_function_def Let_def split: if_splits sum.splits dest: linspace_error)

lemma ramps_raises:
  "k \<in> set ks \<Longrightarrow> out_of_range Vstart Vend k \<Longrightarrow>
   \<exists>e. ramps ks Vstart Vend numsteps accel V = Inl e"
proof (induction ks arbitrary: V)
  case Nil
  then show ?case by simp
next
  case (Cons k0 ks)
  show ?case
  proof (cases "k0 = k")
    case True
    then show ?thesis using Cons.prems(2)
      by (auto simp: out_of_range_def split: option.splits sum.splits)
  next
    case False
    then have "k \<in> set ks" using Cons.prems(1) by simp
    from Cons.IH[OF this Cons.prems(2)] show ?thesis
      by (auto split: option.splits sum.splits list.splits)
  qed
qed

lemma ramps_raises_out_of_range:
  assumes "0 \<le> numsteps" and "accel \<longrightarrow> 1 \<le> numsteps"
  shows "set ks \<subseteq> set (map fst Vstart) \<Longrightarrow> set ks \<subseteq> set (map fst Vend) \<Longrightarrow>
     \<exists>k \<in> set ks. out_of_range Vstart Vend k \<Longrightarrow>
     ramps ks Vstart Vend numsteps accel V = Inl (Exception ''NIDAQ out of range!'')"
proof (induction ks arbitrary: V)
  case Nil
  then show ?case by simp
next
  case (Cons k0 ks)
  from Cons.prems(1) obtain a where a: "map_of Vstart k0 = Some a"
    by (cases "map_of Vstart k0") (auto simp: map_of_eq_None_iff)
  from Cons.prems(2) obtain b where b: "map_of Vend k0 = Some b"
    by (cases "map_of Vend k0") (auto simp: map_of_eq_None_iff)
  from linspace_length[OF assms(1), of a b]
  obtain vs where vs: "linspace a b numsteps = Inr vs" "length vs = nat numsteps" by auto
  show ?case
  proof (cases "max \<bar>a\<bar> \<bar>b\<bar> > 10")
    case True
    then show ?thesis using a b vs by simp
  next
    case False
    then have "\<not> out_of_range Vstart Vend k0" using a b by (simp add: out_of_range_def)
    then have ex: "\<exists>k \<in> set ks. out_of_range Vstart Vend k" using Cons.prems(3) by auto
    have sub: "set ks \<subseteq> set (map fst Vstart)" "set ks \<subseteq> set (map fst Vend)"
      using Cons.prems(1,2) by auto
    note IH = Cons.IH[OF sub ex]
    show ?thesis
    proof (cases accel)
      case False
      then show ?thesis using a b vs \<open>\<not> max \<bar>a\<bar> \<bar>b\<bar> > 10\<close> IH by simp
    next
      case True
      then have "vs \<noteq> []" using assms(2) vs(2) by auto
      then obtain v0 vs' where v: "vs = v0 # vs'" by (cases vs) auto
      from accel_function_total[of 250 0 v0]
      obtain up where up: "accel_function 0 v0 250 = Inr up" by auto
      from accel_function_total[of 250 "last (up @ vs)" 0]
      obtain down where down: "accel_function (last (up @ vs)) 0 250 = Inr down" by auto
      show ?thesis
        using a b vs(1) \<open>\<not> max \<bar>a\<bar> \<bar>b\<bar> > 10\<close> True v up down IH
        by simp
    qed
  qed
qed

lemma ramps_in_range:
  "\<forall>k \<in> set ks. \<not> out_of_range Vstart Vend k \<Longrightarrow>
   ramps ks Vstart Vend numsteps accel V \<noteq> Inl (Exception m)"
proof (induction ks arbitrary: V)
  case Nil
  then show ?case by simp
next
  case (Cons k0 ks)
  then have IH: "\<And>V. ramps ks Vstart Vend numsteps accel V \<noteq> Inl (Exception m)"
    by simp
  have nr: "\<not> out_of_range Vstart Vend k0" using Cons.prems by simp
  show ?case
  proof (cases "map_of Vstart k0")
    case None
    then show ?thesis by simp
  next
    case a: (Some a)
    show ?thesis
    proof (cases "map_of Vend k0")
      case None
      then show ?thesis using a by simp
    next
      case b: (Some b)
      have le: "\<not> max \<bar>a\<bar> \<bar>b\<bar> > 10" using nr a b by (simp add: out_of_range_def)
      show ?thesis
      proof (cases "linspace a b numsteps")
        case (Inl e)
        then show ?thesis using a b linspace_error[OF Inl] by simp
      next
        case (Inr vs)
        show ?thesis
        proof (cases accel)
          case False
          then show ?thesis using a b Inr le IH by simp
        next
          case True
          show ?thesis
          proof (cases vs)
            case Nil
            then show ?thesis using a b Inr le True by simp
          next
            case (Cons v0 vs')
            show ?thesis
            proof (cases "accel_function 0 v0 250")
              case up: (Inl e)
              then show ?thesis
                using a b Inr le True Cons accel_function_error[OF up] by simp
            next
              case up: (Inr up)
              show ?thesis
              proof (cases "accel_function (last (up @ vs)) 0 250")
                case down: (Inl e)
                then show ?thesis
                  using a b Inr le True Cons up accel_function_error[OF down] by simp
              next
                case down: (Inr down)
                then show ?thesis using a b Inr le True Cons up IH by simp
              qed
            qed
          qed
        qed
      qed
    qed
  qed
qed

lemma handle_outputs_error:
  "handle_outputs chs data wd self = (Inl e, self') \<Longrightarrow>
   e \<in> {TypeError, KeyError, IndexError, AttributeError}"
proof (induction chs arbitrary: wd self)
  case Nil
  then show ?case by simp
next
  case (Cons ch chs)
  from Cons.prems show ?case
    by (auto simp: Let_def alloc_def setattr_chan_def
        split: option.splits pyobj.splits list.splits sum.splits if_splits
        dest: Cons.IH)
qed

lemma ch_nums_error: "ch_nums ys = Inl e \<Longrightarrow> e = ValueError"
  by (induction ys arbitrary: e)
     (auto simp: int_of_digits_def split: sum.splits if_splits)

lemma collect_inputs_error: "collect_inputs chs m received d = Inl e \<Longrightarrow> e = KeyError"
  by (induction chs arbitrary: d) (auto split: option.splits)

lemma item_len_error: "item_len h data c = Inl e \<Longrightarrow> e \<in> {KeyError, TypeError}"
  by (auto simp: item_len_def split: option.splits pyobj.splits)

lemma run_task_error:
  "run_task task_run chans data freq wd self = (Inl e, self') \<Longrightarrow>
   e \<in> {TypeError, KeyError, IndexError, ValueError}"
  by (auto simp: run_task_def Let_def
      split: list.splits sum.splits option.splits
      dest: ch_nums_error collect_inputs_error item_len_error)

lemma send_data_error:
  "send_data task_run chans data freq self = (Inl e, self') \<Longrightarrow>
   e \<noteq> Exception ''NIDAQ out of range!''"
  by (auto simp: send_data_def
      split: if_splits prod.splits sum.splits
      dest: handle_outputs_error run_task_error)

lemma send_receive_error:
  "send_receive task_run chan_out a freq self = (Inl e, self') \<Longrightarrow>
   e \<noteq> Exception ''NIDAQ out of range!''"
  by (auto simp: send_receive_def Let_def alloc_def
      split: option.splits chan_out.splits dest: send_data_error)

text \<open>
  Claim C7 as stated fails: a call with a channel out of range can raise another
  exception first. With \<open>accel\<close> and no step, the acceleration of the first channel,
  which is in range, raises IndexError before the second channel is checked; with a
  negative number of steps \<open>numpy.linspace\<close> raises ValueError before the check.
\<close>

theorem sweep_raises_other_exception:
  "sweep echo (Multi [''ao0'', ''ao1''] [(''ao0'', 0), (''ao1'', 20)]
      [(''ao0'', 0), (''ao1'', 20)]) 100 0 True dev0 = (Inl IndexError, dev0) \<and>
   sweep echo (Single ''ao0'' 20 20) 100 (- 1) False dev0 = (Inl ValueError, dev0)"
  by (simp add: sweep_def linspace_def)

text \<open>
  Claim C7, amended: if for some key of \<open>Vstart\<close> the larger of \<open>|Vstart|\<close> and \<open>|Vend|\<close>
  exceeds 10, \<open>sweep\<close> raises an exception and leaves the driver as it was, so that
  nothing has been sent to the hardware; the exception is \<open>NIDAQ out of range!\<close> when
  moreover \<open>numsteps \<ge> 0\<close>, \<open>numsteps \<ge> 1\<close> if \<open>accel\<close> is set, and \<open>Vend\<close> has every key
  of \<open>Vstart\<close>. When no key is out of range, that exception is not raised.
\<close>

theorem sweep_range_check:
  "((\<exists>k \<in> set (map fst (sweep_Vstart call)).
        out_of_range (sweep_Vstart call) (sweep_Vend call) k) \<longrightarrow>
      (\<exists>e. sweep task_run call freq numsteps accel self = (Inl e, self)) \<and>
      (0 \<le> numsteps \<and> (accel \<longrightarrow> 1 \<le> numsteps) \<and>
       set (map fst (sweep_Vstart call)) \<subseteq> set (map fst (sweep_Vend call)) \<longrightarrow>
         sweep task_run call freq numsteps accel self =
           (Inl (Exception ''NIDAQ out of range!''), self))) \<and>
   ((\<forall>k \<in> set (map fst (sweep_Vstart call)).
        \<not> out_of_range (sweep_Vstart call) (sweep_Vend call) k) \<longrightarrow>
      fst (sweep task_run call freq numsteps accel self) \<noteq>
        Inl (Exception ''NIDAQ out of range!''))"
proof (intro conjI impI)
  assume "\<exists>k \<in> set (map fst (sweep_Vstart call)).
            out_of_range (sweep_Vstart call) (sweep_Vend call) k"
  then obtain k where "k \<in> set (map fst (sweep_Vstart call))"
    "out_of_range (sweep_Vstart call) (sweep_Vend call) k" by blast
  from ramps_raises[OF this]
  show "\<exists>e. sweep task_run call freq numsteps accel self = (Inl e, self)"
    by (metis (no_types, lifting) sweep_def sum.case(1))
next
  assume ex: "\<exists>k \<in> set (map fst (sweep_Vstart call)).
            out_of_range (sweep_Vstart call) (sweep_Vend call) k"
    and pre: "0 \<le> numsteps \<and> (accel \<longrightarrow> 1 \<le> numsteps) \<and>
       set (map fst (sweep_Vstart call)) \<subseteq> set (map fst (sweep_Vend call))"
  have "ramps (map fst (sweep_Vstart call)) (sweep_Vstart call) (sweep_Vend call)
          numsteps accel [] = Inl (Exception ''NIDAQ out of range!'')"
    using ramps_raises_out_of_range[of numsteps accel "map fst (sweep_Vstart call)"
        "sweep_Vstart call" "sweep_Vend call" "[]"] ex pre
    by blast
  then show "sweep task_run call freq numsteps accel self =
           (Inl (Exception ''NIDAQ out of range!''), self)"
    by (simp add: sweep_def)
next
  assume inr: "\<forall>k \<in> set (map fst (sweep_Vstart call)).
        \<not> out_of_range (sweep_Vstart call) (sweep_Vend call) k"
  note r = ramps_in_range[OF inr, of numsteps accel "[]" "''NIDAQ out of range!''"]
  show "fst (sweep task_run call freq numsteps accel self) \<noteq>
        Inl (Exception ''NIDAQ out of range!'')"
    using r
    by (auto simp: sweep_def Let_def split: sum.splits prod.splits dest: send_receive_error)
qed

theorem sweep_range_check_witness:
  "out_of_range [(''ao0'', 0)] [(''ao0'', 20)] ''ao0'' \<and>
   sweep echo (Single ''ao0'' 0 20) 100 1000 False dev0 =
     (Inl (Exception ''NIDAQ out of range!''), dev0) \<and>
   \<not> out_of_range [(''ao0'', - 10)] [(''ao0'', 10)] ''ao0'' \<and>
   fst (sweep echo (Single ''ao0'' (- 10) 10) 100 3 False dev0) \<noteq>
     Inl (Exception ''NIDAQ out of range!'')"
  using sweep_range_check[of "Single ''ao0'' 0 20" echo 100 1000 False dev0]
        sweep_range_check[of "Single ''ao0'' (- 10) 10" echo 100 3 False dev0]
  by (simp add: out_of_range_def)

section \<open>Properties of the HDF5 dataset layer\<close>

subsection \<open>Claim C4\<close>

text \<open>
  Claim C4 describes the dict that mirrors the subgroup at the path, as the docstring of
  \<open>get\<close> does. The code walks the whole file instead: for the group \<open>a\<close> of a file with
  the groups \<open>a\<close> and \<open>b\<close>, \<open>get\<close> returns the datasets of both groups under their
  names from the root, where the subgroup at \<open>a\<close> is mirrored by a dict with the single
  key \<open>x\<close>.
\<close>

theorem get_group_walks_whole_file:
  "get file_ab ''a'' =
     Inr (Dict [(''a'', Dict [(''x'', Leaf 1)]), (''b'', Dict [(''y'', Leaf 2)])]) \<and>
   map_option mirror (lookup file_ab (h5_keys ''a'')) = Some (Dict [(''x'', Leaf 1)])"
  by (simp add: get_def file_ab_def h5_keys_def loaddict_def)

subsection \<open>Claim C5\<close>

lemma map_of_dict_set:
  "map_of (dict_set kvs k v) k' = (if k' = k then Some v else map_of kvs k')"
  by (induction kvs) auto

lemma map_of_append_new:
  "map_of ms k = None \<Longrightarrow>
   map_of (ms @ [(k, t)]) k' = (if k' = k then Some t else map_of ms k')"
  by (induction ms) auto

lemma create_dataset_fresh:
  "create_dataset f ks d = Inr f' \<Longrightarrow> lookup f ks = None"
  by (induction f ks d arbitrary: f' rule: create_dataset.induct)
     (auto split: option.splits sum.splits)

lemma create_dataset_stores:
  "create_dataset f ks d = Inr f' \<Longrightarrow> lookup f' ks = Some (H5Dataset d)"
  by (induction f ks d arbitrary: f' rule: create_dataset.induct)
     (auto simp: map_of_dict_set map_of_append_new split: option.splits sum.splits)

lemma create_dataset_keeps:
  "create_dataset f ks d = Inr f' \<Longrightarrow> lookup f qs = Some (H5Dataset x) \<Longrightarrow>
   lookup f' qs = Some (H5Dataset x)"
proof (induction f ks d arbitrary: f' qs rule: create_dataset.induct)
  case (1 t d)
  then show ?case by simp
next
  case (2 y k ks d)
  then show ?case by simp
next
  case (3 ms k d)
  then show ?case
    by (cases qs) (auto simp: map_of_append_new split: option.splits)
next
  case (4 ms k k' ks d)
  show ?case
  proof (cases qs)
    case Nil
    then show ?thesis using 4 by simp
  next
    case (Cons q qs')
    show ?thesis
    proof (cases "map_of ms k")
      case None
      then show ?thesis using 4(3,4) Cons
        by (auto simp: map_of_append_new split: sum.splits option.splits)
    next
      case (Some t)
      then show ?thesis using 4(2)[OF Some] 4(3,4) Cons
        by (auto simp: map_of_dict_set split: sum.splits option.splits)
    qed
  qed
qed

lemma writetoh5_creates:
  "writetoh5 f path data replies = Inr (f', rest, prompts) \<Longrightarrow>
   (\<exists>p. (p = path \<or> p \<in> set replies) \<and> create_dataset f (h5_keys p) data = Inr f') \<and>
   (\<forall>q \<in> set prompts. lookup f (h5_keys q) \<noteq> None)"
proof (induction replies arbitrary: path prompts)
  case Nil
  then show ?case
    by (subst (asm) writetoh5.simps) (auto split: option.splits sum.splits)
next
  case (Cons newpath replies)
  show ?case
  proof (cases "lookup f (h5_keys path)")
    case None
    then show ?thesis using Cons.prems
      by (subst (asm) writetoh5.simps) (auto split: sum.splits)
  next
    case (Some ob)
    from Cons.prems obtain prompts'
      where r: "writetoh5 f newpath data replies = Inr (f', rest, prompts')"
        and p: "prompts = path # prompts'"
      by (subst (asm) writetoh5.simps) (auto simp: Some split: sum.splits)
    from Cons.IH[OF r] show ?thesis using p Some by auto
  qed
qed

text \<open>
  Claim C5: when an object exists at the path, \<open>_writetoh5\<close> prompts for a new path and
  retries there (and fails with EOFError when no reply comes). When it returns, it has
  prompted once for each path it found used, and the new file is the result of
  \<open>create_dataset\<close> on the old file at the given path or at one of the replies, a path
  at which the old file had no object and at which the new file has the data; every
  dataset of the old file is in the new file with its contents.
\<close>

theorem writetoh5_never_overwrites:
  "(lookup f (h5_keys path) \<noteq> None \<longrightarrow>
      writetoh5 f path data [] = Inl EOFError \<and>
      (\<forall>newpath rest. writetoh5 f path data (newpath # rest) =
         (case writetoh5 f newpath data rest of
            Inl e \<Rightarrow> Inl e
          | Inr (f', rest', prompts) \<Rightarrow> Inr (f', rest', path # prompts)))) \<and>
   (writetoh5 f path data replies = Inr (f', rest, prompts) \<longrightarrow>
      (\<exists>p. (p = path \<or> p \<in> set replies) \<and> lookup f (h5_keys p) = None \<and>
           create_dataset f (h5_keys p) data = Inr f' \<and>
           lookup f' (h5_keys p) = Some (H5Dataset data)) \<and>
      (\<forall>q \<in> set prompts. lookup f (h5_keys q) \<noteq> None) \<and>
      (\<forall>qs x. lookup f qs = Some (H5Dataset x) \<longrightarrow> lookup f' qs = Some (H5Dataset x)))"
proof (intro conjI impI allI)
  assume "lookup f (h5_keys path) \<noteq> None"
  then obtain ob where "lookup f (h5_keys path) = Some ob" by blast
  then show "writetoh5 f path data [] = Inl EOFError"
    by (subst writetoh5.simps) simp
next
  fix newpath rest
  assume "lookup f (h5_keys path) \<noteq> None"
  then obtain ob where "lookup f (h5_keys path) = Some ob" by blast
  then show "writetoh5 f path data (newpath # rest) =
         (case writetoh5 f newpath data rest of
            Inl e \<Rightarrow> Inl e
          | Inr (f', rest', prompts) \<Rightarrow> Inr (f', rest', path # prompts))"
    by (subst writetoh5.simps) simp
next
  assume r: "writetoh5 f path data replies = Inr (f', rest, prompts)"
  from writetoh5_creates[OF r] obtain p
    where p: "p = path \<or> p \<in> set replies" "create_dataset f (h5_keys p) data = Inr f'"
    by blast
  then show "\<exists>p. (p = path \<or> p \<in> set replies) \<and> lookup f (h5_keys p) = None \<and>
           create_dataset f (h5_keys p) data = Inr f' \<and>
           lookup f' (h5_keys p) = Some (H5Dataset data)"
    using create_dataset_fresh[OF p(2)] create_dataset_stores[OF p(2)] by blast
next
  assume r: "writetoh5 f path data replies = Inr (f', rest, prompts)"
  from writetoh5_creates[OF r]
  show "\<forall>q \<in> set prompts. lookup f (h5_keys q) \<noteq> None" by blast
next
  fix qs x
  assume r: "writetoh5 f path data replies = Inr (f', rest, prompts)"
    and l: "lookup f qs = Some (H5Dataset x)"
  from writetoh5_creates[OF r] obtain p
    where "create_dataset f (h5_keys p) data = Inr f'" by blast
  from create_dataset_keeps[OF this l] show "lookup f' qs = Some (H5Dataset x)" .
qed

text \<open>A write at the used path \<open>a/x\<close>, with the replies \<open>b/y\<close>, used as well, and
  \<open>c/z/w\<close>: the dataset is created at \<open>c/z/w\<close> and \<open>a/x\<close> keeps its contents.\<close>

theorem writetoh5_never_overwrites_witness:
  "lookup file_ab (h5_keys ''a/x'') = Some (H5Dataset 1) \<and>
   writetoh5 file_ab ''a/x'' 7 [''b/y'', ''c/z/w''] = Inr (file_abc, [], [''a/x'', ''b/y'']) \<and>
   lookup file_abc (h5_keys ''a/x'') = Some (H5Dataset 1)"
proof -
  have l: "lookup file_ab (h5_keys ''a/x'') = Some (H5Dataset 1)"
    by (simp add: file_ab_def h5_keys_def)
  have l2: "lookup file_ab (h5_keys ''b/y'') = Some (H5Dataset 2)"
    by (simp add: file_ab_def h5_keys_def)
  have w3: "writetoh5 file_ab ''c/z/w'' 7 [] = Inr (file_abc, [], [])"
    by (subst writetoh5.simps) (simp add: file_ab_def file_abc_def h5_keys_def)
  have w2: "writetoh5 file_ab ''b/y'' 7 [''c/z/w''] = Inr (file_abc, [], [''b/y''])"
    by (subst writetoh5.simps) (simp add: l2 w3)
  have w: "writetoh5 file_ab ''a/x'' 7 [''b/y'', ''c/z/w''] =
      Inr (file_abc, [], [''a/x'', ''b/y''])"
    by (subst writetoh5.simps) (simp add: l w2)
  note t = writetoh5_never_overwrites[of file_ab "''a/x''" 7 "[''b/y'', ''c/z/w'']"
      file_abc "[]" "[''a/x'', ''b/y'']"]
  have "lookup file_abc (h5_keys ''a/x'') = Some (H5Dataset 1)"
    by (rule t[THEN conjunct2, THEN mp, OF w, THEN conjunct2, THEN conjunct2,
          THEN spec, THEN spec, THEN mp, OF l])
  with l w show ?thesis by simp
qed

subsection \<open>Claim C6\<close>

text \<open>
  Claim C6 says, with the docstring and the prompt of \<open>_appenddatah5\<close>, that a slice
  holding data is overwritten in the original file only on the reply \<open>OVERWRITE\<close>. The
  code assigns the slice in the original file on any other reply too, when the dataset
  can be created in the anti-overwrite file: with \<open>[1, 2]\<close> stored at \<open>x\<close> and the reply
  \<open>no\<close>, the original file holds \<open>[5, 6]\<close> afterwards and the anti-overwrite file an
  array of zeros.
\<close>

theorem appenddatah5_overwrites_without_consent:
  "appenddatah5 disk0 ''data.h5'' [Val 5, Val 6] ''x'' (0, 2) [''no''] =
     (Inr (),
      disk0(''antioverwrite_data.h5'' \<mapsto> H5Group [(''x'', H5Dataset [Val 0, Val 0])],
            ''data.h5'' \<mapsto> H5Group [(''x'', H5Dataset [Val 5, Val 6])]),
      [])"
  by (subst appenddatah5.simps)
     (simp add: disk0_def h5_keys_def isnan_def numeral_2_eq_2)

subsection \<open>Claim C10\<close>

lemma dict_set_new: "k \<notin> set (map fst kvs) \<Longrightarrow> dict_set kvs k v = kvs @ [(k, v)]"
  by (induction kvs) auto

lemma dict_set_keys: "fst ` set (dict_set kvs k v) = insert k (fst ` set kvs)"
  by (induction kvs k v rule: dict_set.induct) auto

lemma dict_set_distinct: "distinct (map fst kvs) \<Longrightarrow> distinct (map fst (dict_set kvs k v))"
proof (induction kvs k v rule: dict_set.induct)
  case (1 k v)
  show ?case by simp
next
  case (2 k' v' kvs k v)
  show ?case
  proof (cases "k' = k")
    case True
    then show ?thesis using "2.prems" by simp
  next
    case False
    have "k' \<notin> fst ` set (dict_set kvs k v)"
      using False "2.prems" by (simp add: dict_set_keys)
    moreover have "distinct (map fst (dict_set kvs k v))"
      using 2 False by simp
    ultimately show ?thesis using False by simp
  qed
qed

lemma dict_set_values: "snd ` set (dict_set kvs k v) \<subseteq> insert v (snd ` set kvs)"
  by (induction kvs k v rule: dict_set.induct) auto

lemma sanitize_items_clean:
  "\<forall>x \<in> snd ` set xs. clean parse str x \<Longrightarrow> distinct (map fst (acc @ xs)) \<Longrightarrow>
   sanitize_items parse str xs acc replies = Inr (acc @ xs, replies)"
proof (induction xs arbitrary: acc)
  case Nil
  then show ?case by simp
next
  case (Cons kv xs)
  obtain k v where kv: "kv = (k, v)" by (cases kv)
  have c: "sanitize parse str v replies = Inr (v, replies)"
    using Cons.prems(1) kv by (simp add: clean_def)
  have new: "dict_set acc k v = acc @ [(k, v)]"
    using Cons.prems(2) kv by (intro dict_set_new) auto
  have "sanitize_items parse str xs (acc @ [(k, v)]) replies =
      Inr ((acc @ [(k, v)]) @ xs, replies)"
    using Cons.prems kv by (intro Cons.IH) auto
  then show ?case using kv c new by simp
qed

lemma clean_dict:
  assumes "\<forall>x \<in> snd ` set kvs. clean parse str x" and "distinct (map fst kvs)"
  shows "clean parse str (PDict kvs)"
  using sanitize_items_clean[OF assms(1), of "[]"] assms(2) by (simp add: clean_def)

lemma sanitize_gives_clean:
  "sanitize parse str d replies = Inr (v, replies') \<Longrightarrow> clean parse str v"
  "sanitize_items parse str kvs acc replies = Inr (res, replies') \<Longrightarrow>
     \<forall>x \<in> snd ` set acc. clean parse str x \<Longrightarrow> distinct (map fst acc) \<Longrightarrow>
     (\<forall>x \<in> snd ` set res. clean parse str x) \<and> distinct (map fst res)"
proof (induction parse str d replies and parse str kvs acc replies
    arbitrary: v replies' and res replies' rule: sanitize_sanitize_items.induct)
  case (1 parse str s replies)
  then show ?case by (auto simp: clean_def)
next
  case (2 parse str r replies)
  then show ?case by (auto simp: clean_def)
next
  case (3 parse str i replies)
  then show ?case by (auto simp: clean_def)
next
  case (4 parse str xs replies)
  then show ?case by (auto simp: clean_def)
next
  case (5 parse str dt es replies)
  then show ?case
    by (auto simp: clean_def split: if_splits sum.splits option.splits)
next
  case (6 parse str kvs replies)
  from "6.prems" obtain res where r: "sanitize_items parse str kvs [] replies = Inr (res, replies')"
    and v: "v = PDict res"
    by (auto split: sum.splits)
  from "6.IH"[OF r] have "(\<forall>x \<in> snd ` set res. clean parse str x) \<and> distinct (map fst res)"
    by simp
  then show ?case using v clean_dict by blast
next
  case (7 parse str n replies)
  then show ?case
    by (auto simp: clean_def split: option.splits list.splits if_splits)
next
  case (8 parse str cleandata replies)
  then show ?case by simp
next
  case (9 parse str key v kvs cleandata replies)
  from "9.prems"(1) obtain v' r1 where s: "sanitize parse str v replies = Inr (v', r1)"
    and rest: "sanitize_items parse str kvs (dict_set cleandata key v') r1 = Inr (res, replies')"
    by (auto split: sum.splits)
  have cv: "clean parse str v'" using "9.IH"(1)[OF s] .
  have vals: "\<forall>x \<in> snd ` set (dict_set cleandata key v'). clean parse str x"
    using dict_set_values[of cleandata key v'] cv "9.prems"(2) by blast
  have dist: "distinct (map fst (dict_set cleandata key v'))"
    using "9.prems"(3) by (rule dict_set_distinct)
  show ?case
    using "9.IH"(2)[OF s refl rest vals dist] .
qed

text \<open>
  Claim C10: whenever \<open>sanitize\<close> returns a value, a second \<open>sanitize\<close> of that value
  returns it unchanged, whatever the replies at the prompt, and reads none of them.
\<close>

theorem sanitize_idempotent:
  "sanitize parse str d replies = Inr (v, replies') \<Longrightarrow>
   sanitize parse str v replies2 = Inr (v, replies2)"
  using sanitize_gives_clean(1)[of parse str d replies v replies'] by (simp add: clean_def)

theorem sanitize_idempotent_witness:
  "sanitize parse_none str_object raw_dict [] = Inr (clean_dict0, []) \<and>
   sanitize parse_none str_object clean_dict0 [''y''] = Inr (clean_dict0, [''y''])"
proof -
  have s: "sanitize parse_none str_object raw_dict [] = Inr (clean_dict0, [])"
    by (simp add: raw_dict_def clean_dict0_def parse_none_def str_object_def)
  from sanitize_idempotent[OF s, of "[''y'']"] s show ?thesis by simp
qed

end
